theory Spec2Isabelle
  imports Main "HOL-Library.Char_ord" "HOL-Library.List_Lexorder" "HOL-Library.AList"
begin

section \<open>Data model\<close>

text \<open>
  Python strings are modelled as \<open>string\<close>, the UTF-8 bytes of the text. The accented
  letters of the Portuguese descriptions are written as their two UTF-8 bytes.
\<close>

abbreviation c_cedilla :: string where "c_cedilla \<equiv> [CHR 0xC3, CHR 0xA7]"
abbreviation a_tilde :: string where "a_tilde \<equiv> [CHR 0xC3, CHR 0xA3]"
abbreviation u_acute :: string where "u_acute \<equiv> [CHR 0xC3, CHR 0xBA]"
abbreviation a_acute :: string where "a_acute \<equiv> [CHR 0xC3, CHR 0xA1]"
abbreviation i_acute :: string where "i_acute \<equiv> [CHR 0xC3, CHR 0xAD]"
abbreviation o_acute :: string where "o_acute \<equiv> [CHR 0xC3, CHR 0xB3]"
abbreviation euro :: string where "euro \<equiv> [CHR 0xE2, CHR 0x82, CHR 0xAC]"
abbreviation apostrophe :: string where "apostrophe \<equiv> [CHR 0x27]"

text \<open>\<open>tracker/models/change.py\<close>: the enumeration \<open>ChangeType\<close> and its \<open>.value\<close>.\<close>

datatype ChangeType =
    SERVICE_ADDED | SERVICE_REMOVED | PRICE_CHANGED
  | LOCATION_ADDED | LOCATION_REMOVED
  | PROMOTION_NEW | PROMOTION_EXPIRED
  | BUSINESS_MODEL_CHANGE | WEBSITE_CONTENT_CHANGE

fun ChangeType_value :: "ChangeType \<Rightarrow> string" where
  "ChangeType_value SERVICE_ADDED = ''service_added''"
| "ChangeType_value SERVICE_REMOVED = ''service_removed''"
| "ChangeType_value PRICE_CHANGED = ''price_changed''"
| "ChangeType_value LOCATION_ADDED = ''location_added''"
| "ChangeType_value LOCATION_REMOVED = ''location_removed''"
| "ChangeType_value PROMOTION_NEW = ''promotion_new''"
| "ChangeType_value PROMOTION_EXPIRED = ''promotion_expired''"
| "ChangeType_value BUSINESS_MODEL_CHANGE = ''business_model_change''"
| "ChangeType_value WEBSITE_CONTENT_CHANGE = ''website_content_change''"

text \<open>
  The dataclass \<open>Change\<close>. Its fields \<open>company_id\<close> and \<open>timestamp\<close> share their names
  with fields of \<open>CompanySnapshot\<close>; they are written \<open>Change.company_id\<close> and
  \<open>Change.timestamp\<close> below.
\<close>

record Change =
  company_id :: string
  change_type :: string
  category :: string
  description :: string
  old_value :: "string option"
  new_value :: "string option"
  timestamp :: string
  severity :: string

text \<open>
  \<open>tracker/models/snapshot.py\<close>: the dataclass \<open>CompanySnapshot\<close>. The dictionaries hold
  strings (price texts, content hashes, previews) under string keys; a Python \<open>dict\<close> is an
  association list in insertion order, read with \<open>map_of\<close>.
\<close>

type_synonym dict = "(string \<times> string) list"

record CompanySnapshot =
  company_id :: string
  timestamp :: string
  services :: "string list"
  pricing :: dict
  locations :: "string list"
  promotions :: "string list"
  business_info :: dict
  raw_pages :: dict
  metadata :: dict

text \<open>\<open>d.get(k)\<close>, \<open>d.get(k, default)\<close>, \<open>d.keys()\<close> and \<open>str(x)\<close> of a string or \<open>None\<close>.\<close>

definition dict_get :: "dict \<Rightarrow> string \<Rightarrow> string option" where
  "dict_get d k = map_of d k"

definition dict_get_default :: "dict \<Rightarrow> string \<Rightarrow> string \<Rightarrow> string" where
  "dict_get_default d k dflt = (case map_of d k of None \<Rightarrow> dflt | Some v \<Rightarrow> v)"

definition dict_keys :: "dict \<Rightarrow> string list" where
  "dict_keys d = map fst d"

fun py_str :: "string option \<Rightarrow> string" where
  "py_str None = ''None''"
| "py_str (Some v) = v"

text \<open>
  Python raises exceptions; the model returns them as values. \<open>Exception\<close> stands for any
  other subclass of Python's \<open>Exception\<close>.
\<close>

datatype error = ValueError string | OSError string | Exception string

section \<open>Change detector (\<open>tracker/change_detector.py\<close>)\<close>

text \<open>
  \<open>set(xs) - set(ys)\<close>, and \<open>set(xs + ys)\<close>, as the list a \<open>for\<close> loop walks through. Python
  leaves the iteration order of a set open; the model fixes one order (that of \<open>remdups\<close>),
  and no theorem below depends on it.
\<close>

definition set_difference :: "string list \<Rightarrow> string list \<Rightarrow> string list" where
  "set_difference xs ys = remdups (filter (\<lambda>x. x \<notin> set ys) xs)"

definition set_of_lists :: "string list \<Rightarrow> string list \<Rightarrow> string list" where
  "set_of_lists xs ys = remdups (xs @ ys)"

definition service_added :: "string \<Rightarrow> string \<Rightarrow> string \<Rightarrow> Change" where
  "service_added cid ts service =
     \<lparr>Change.company_id = cid,
      change_type = ChangeType_value SERVICE_ADDED,
      category = ''services'',
      description = ''Novo servi'' @ c_cedilla @ ''o detetado: '' @ service,
      old_value = None,
      new_value = Some service,
      Change.timestamp = ts,
      severity = ''high''\<rparr>"

definition service_removed :: "string \<Rightarrow> string \<Rightarrow> string \<Rightarrow> Change" where
  "service_removed cid ts service =
     \<lparr>Change.company_id = cid,
      change_type = ChangeType_value SERVICE_REMOVED,
      category = ''services'',
      description = ''Servi'' @ c_cedilla @ ''o removido: '' @ service,
      old_value = Some service,
      new_value = None,
      Change.timestamp = ts,
      severity = ''high''\<rparr>"

definition detect_service_changes ::
    "CompanySnapshot \<Rightarrow> CompanySnapshot \<Rightarrow> string \<Rightarrow> Change list" where
  "detect_service_changes old new ts =
     map (service_added (company_id new) ts) (set_difference (services new) (services old))
     @ map (service_removed (company_id new) ts) (set_difference (services old) (services new))"

definition price_new :: "string \<Rightarrow> string \<Rightarrow> string \<Rightarrow> string option \<Rightarrow> Change" where
  "price_new cid ts key new_price =
     \<lparr>Change.company_id = cid,
      change_type = ChangeType_value PRICE_CHANGED,
      category = ''pricing'',
      description = ''Novo pre'' @ c_cedilla @ ''o registado para: '' @ key,
      old_value = None,
      new_value = Some (py_str new_price),
      Change.timestamp = ts,
      severity = ''medium''\<rparr>"

definition price_removed :: "string \<Rightarrow> string \<Rightarrow> string \<Rightarrow> string option \<Rightarrow> Change" where
  "price_removed cid ts key old_price =
     \<lparr>Change.company_id = cid,
      change_type = ChangeType_value PRICE_CHANGED,
      category = ''pricing'',
      description = ''Pre'' @ c_cedilla @ ''o removido para: '' @ key,
      old_value = Some (py_str old_price),
      new_value = None,
      Change.timestamp = ts,
      severity = ''medium''\<rparr>"

definition price_altered ::
    "string \<Rightarrow> string \<Rightarrow> string \<Rightarrow> string option \<Rightarrow> string option \<Rightarrow> Change" where
  "price_altered cid ts key old_price new_price =
     \<lparr>Change.company_id = cid,
      change_type = ChangeType_value PRICE_CHANGED,
      category = ''pricing'',
      description = ''Pre'' @ c_cedilla @ ''o alterado para '' @ key @ '': ''
                    @ py_str old_price @ '' -> '' @ py_str new_price,
      old_value = Some (py_str old_price),
      new_value = Some (py_str new_price),
      Change.timestamp = ts,
      severity = ''high''\<rparr>"

text \<open>The body of the loop over \<open>all_keys\<close>: what one key appends to \<open>changes\<close>.\<close>

definition pricing_changes_of_key ::
    "CompanySnapshot \<Rightarrow> CompanySnapshot \<Rightarrow> string \<Rightarrow> string \<Rightarrow> Change list" where
  "pricing_changes_of_key old new ts key =
     (let old_price = dict_get (pricing old) key;
          new_price = dict_get (pricing new) key
      in if old_price = None \<and> new_price \<noteq> None then
           [price_new (company_id new) ts key new_price]
         else if old_price \<noteq> None \<and> new_price = None then
           [price_removed (company_id new) ts key old_price]
         else if old_price \<noteq> new_price then
           [price_altered (company_id new) ts key old_price new_price]
         else [])"

definition detect_pricing_changes ::
    "CompanySnapshot \<Rightarrow> CompanySnapshot \<Rightarrow> string \<Rightarrow> Change list" where
  "detect_pricing_changes old new ts =
     (let all_keys = set_of_lists (dict_keys (pricing old)) (dict_keys (pricing new))
      in concat (map (pricing_changes_of_key old new ts) all_keys))"

definition location_added :: "string \<Rightarrow> string \<Rightarrow> string \<Rightarrow> Change" where
  "location_added cid ts location =
     \<lparr>Change.company_id = cid,
      change_type = ChangeType_value LOCATION_ADDED,
      category = ''locations'',
      description = ''Nova localiza'' @ c_cedilla @ a_tilde @ ''o: '' @ location,
      old_value = None,
      new_value = Some location,
      Change.timestamp = ts,
      severity = ''high''\<rparr>"

definition location_removed :: "string \<Rightarrow> string \<Rightarrow> string \<Rightarrow> Change" where
  "location_removed cid ts location =
     \<lparr>Change.company_id = cid,
      change_type = ChangeType_value LOCATION_REMOVED,
      category = ''locations'',
      description = ''Localiza'' @ c_cedilla @ a_tilde @ ''o removida: '' @ location,
      old_value = Some location,
      new_value = None,
      Change.timestamp = ts,
      severity = ''medium''\<rparr>"

definition detect_location_changes ::
    "CompanySnapshot \<Rightarrow> CompanySnapshot \<Rightarrow> string \<Rightarrow> Change list" where
  "detect_location_changes old new ts =
     map (location_added (company_id new) ts) (set_difference (locations new) (locations old))
     @ map (location_removed (company_id new) ts)
         (set_difference (locations old) (locations new))"

definition promotion_new :: "string \<Rightarrow> string \<Rightarrow> string \<Rightarrow> Change" where
  "promotion_new cid ts promo =
     \<lparr>Change.company_id = cid,
      change_type = ChangeType_value PROMOTION_NEW,
      category = ''promotions'',
      description = ''Nova promo'' @ c_cedilla @ a_tilde @ ''o: '' @ promo,
      old_value = None,
      new_value = Some promo,
      Change.timestamp = ts,
      severity = ''medium''\<rparr>"

definition promotion_expired :: "string \<Rightarrow> string \<Rightarrow> string \<Rightarrow> Change" where
  "promotion_expired cid ts promo =
     \<lparr>Change.company_id = cid,
      change_type = ChangeType_value PROMOTION_EXPIRED,
      category = ''promotions'',
      description = ''Promo'' @ c_cedilla @ a_tilde @ ''o expirada/removida: '' @ promo,
      old_value = Some promo,
      new_value = None,
      Change.timestamp = ts,
      severity = ''info''\<rparr>"

definition detect_promotion_changes ::
    "CompanySnapshot \<Rightarrow> CompanySnapshot \<Rightarrow> string \<Rightarrow> Change list" where
  "detect_promotion_changes old new ts =
     map (promotion_new (company_id new) ts) (set_difference (promotions new) (promotions old))
     @ map (promotion_expired (company_id new) ts)
         (set_difference (promotions old) (promotions new))"

definition business_model_change :: "string \<Rightarrow> string \<Rightarrow> string \<Rightarrow> string \<Rightarrow> Change" where
  "business_model_change cid ts old_preview new_preview =
     \<lparr>Change.company_id = cid,
      change_type = ChangeType_value BUSINESS_MODEL_CHANGE,
      category = ''business_model'',
      description = ''Conte'' @ u_acute @ ''do da p'' @ a_acute @ ''gina '' @ apostrophe
                    @ ''Sobre'' @ apostrophe @ '' alterado - poss'' @ i_acute
                    @ ''vel mudan'' @ c_cedilla @ ''a no modelo de neg'' @ o_acute @ ''cio'',
      old_value = Some old_preview,
      new_value = Some new_preview,
      Change.timestamp = ts,
      severity = ''medium''\<rparr>"

text \<open>A Python string is true in a condition when it is not empty.\<close>

definition detect_business_changes ::
    "CompanySnapshot \<Rightarrow> CompanySnapshot \<Rightarrow> string \<Rightarrow> Change list" where
  "detect_business_changes old new ts =
     (let old_hash = dict_get_default (business_info old) ''about_text_hash'' '''';
          new_hash = dict_get_default (business_info new) ''about_text_hash'' ''''
      in if old_hash \<noteq> '''' \<and> new_hash \<noteq> '''' \<and> old_hash \<noteq> new_hash then
           [business_model_change (company_id new) ts
              (dict_get_default (business_info old) ''about_text_preview'' '''')
              (dict_get_default (business_info new) ''about_text_preview'' '''')]
         else [])"

definition website_content_change ::
    "string \<Rightarrow> string \<Rightarrow> string \<Rightarrow> string \<Rightarrow> string \<Rightarrow> Change" where
  "website_content_change cid ts page old_hash new_hash =
     \<lparr>Change.company_id = cid,
      change_type = ChangeType_value WEBSITE_CONTENT_CHANGE,
      category = ''business_model'',
      description = ''Conte'' @ u_acute @ ''do da p'' @ a_acute @ ''gina '' @ apostrophe
                    @ page @ apostrophe @ '' alterado'',
      old_value = Some (''hash: '' @ take 16 old_hash @ ''...''),
      new_value = Some (''hash: '' @ take 16 new_hash @ ''...''),
      Change.timestamp = ts,
      severity = ''info''\<rparr>"

definition page_changes_of_page ::
    "CompanySnapshot \<Rightarrow> CompanySnapshot \<Rightarrow> string \<Rightarrow> string \<Rightarrow> Change list" where
  "page_changes_of_page old new ts page =
     (let old_hash = dict_get_default (raw_pages old) page '''';
          new_hash = dict_get_default (raw_pages new) page ''''
      in if old_hash \<noteq> '''' \<and> new_hash \<noteq> '''' \<and> old_hash \<noteq> new_hash then
           [website_content_change (company_id new) ts page old_hash new_hash]
         else [])"

definition detect_page_changes ::
    "CompanySnapshot \<Rightarrow> CompanySnapshot \<Rightarrow> string \<Rightarrow> Change list" where
  "detect_page_changes old new ts =
     (let all_pages = set_of_lists (dict_keys (raw_pages old)) (dict_keys (raw_pages new))
      in concat (map (page_changes_of_page old new ts) all_pages))"

text \<open>
  \<open>detect_changes\<close>: \<open>now\<close> is what \<open>datetime.now().isoformat()\<close> returns at the call.
\<close>

definition detect_changes ::
    "string \<Rightarrow> CompanySnapshot \<Rightarrow> CompanySnapshot \<Rightarrow> error + Change list" where
  "detect_changes now old new =
     (if company_id old \<noteq> company_id new then
        Inl (ValueError ''Snapshots devem ser da mesma empresa'')
      else
        Inr (detect_service_changes old new now
             @ detect_pricing_changes old new now
             @ detect_location_changes old new now
             @ detect_promotion_changes old new now
             @ detect_business_changes old new now
             @ detect_page_changes old new now))"

section \<open>Snapshot storage (\<open>tracker/storage.py\<close>)\<close>

text \<open>
  The directory tree under \<open>base_dir\<close>: one sub-directory per company, holding files. A file
  is modelled by the snapshot whose JSON text it holds (\<open>to_json\<close> and \<open>from_json\<close> are
  inverse on the fields of the dataclass). Company identifiers are plain names, without path
  separators or glob metacharacters, as the identifiers of the scraper registry are. The
  parameter \<open>company_id\<close> of the source is written \<open>cid\<close>, since \<open>company_id\<close> is the field
  of the snapshot. File operations succeed here; a write that fails is part of the agent's
  model below.
\<close>

type_synonym directory = "(string \<times> CompanySnapshot) list"
type_synonym filesystem = "string \<rightharpoonup> directory"

definition entries :: "filesystem \<Rightarrow> string \<Rightarrow> directory" where
  "entries fs cid = (case fs cid of None \<Rightarrow> [] | Some d \<Rightarrow> d)"

text \<open>
  \<open>datetime.now()\<close> is an input of the model, and \<open>strftime("%Y%m%d_%H%M%S")\<close> prints it
  with zero-padded decimal fields. \<open>valid_datetime\<close> is the range of Python's \<open>datetime\<close>, and
  \<open>datetime_fields\<close> compares two clock values as the lists of their fields, the earlier one
  being the smaller.
\<close>

record datetime =
  year :: nat
  month :: nat
  day :: nat
  hour :: nat
  minute :: nat
  second :: nat

definition valid_datetime :: "datetime \<Rightarrow> bool" where
  "valid_datetime t \<longleftrightarrow>
     1 \<le> year t \<and> year t \<le> 9999 \<and> 1 \<le> month t \<and> month t \<le> 12 \<and> 1 \<le> day t \<and> day t \<le> 31
     \<and> hour t \<le> 23 \<and> minute t \<le> 59 \<and> second t \<le> 59"

definition datetime_fields :: "datetime \<Rightarrow> nat list" where
  "datetime_fields t = [year t, month t, day t, hour t, minute t, second t]"

definition digit :: "nat \<Rightarrow> char" where
  "digit d = char_of (48 + d)"

definition zero_pad2 :: "nat \<Rightarrow> string" where
  "zero_pad2 n = [digit (n div 10 mod 10), digit (n mod 10)]"

definition zero_pad4 :: "nat \<Rightarrow> string" where
  "zero_pad4 n = [digit (n div 1000 mod 10), digit (n div 100 mod 10),
                  digit (n div 10 mod 10), digit (n mod 10)]"

definition strftime :: "datetime \<Rightarrow> string" where
  "strftime t = zero_pad4 (year t) @ zero_pad2 (month t) @ zero_pad2 (day t) @ ''_''
                @ zero_pad2 (hour t) @ zero_pad2 (minute t) @ zero_pad2 (second t)"

text \<open>\<open>_company_dir\<close>: \<open>mkdir(parents=True, exist_ok=True)\<close> creates the directory if missing.\<close>

definition company_dir :: "string \<Rightarrow> filesystem \<Rightarrow> filesystem" where
  "company_dir cid fs =
     (case fs cid of None \<Rightarrow> fs(cid \<mapsto> []) | Some d \<Rightarrow> fs)"

definition snapshot_filename :: "string \<Rightarrow> string \<Rightarrow> string" where
  "snapshot_filename cid stamp = cid @ ''_'' @ stamp @ ''.json''"

text \<open>
  \<open>sorted(company_dir.glob(f"{company_id}_*.json"), reverse=True)\<close>: the entries of the
  directory whose names start with \<open>company_id_\<close> and end with \<open>.json\<close>, by descending name.
  Paths of one directory compare as their names do, and strings by code point.
\<close>

definition glob_match :: "string \<Rightarrow> string \<Rightarrow> bool" where
  "glob_match cid name \<longleftrightarrow>
     (let pre = cid @ ''_''; suf = ''.json''
      in length pre + length suf \<le> length name
         \<and> take (length pre) name = pre
         \<and> drop (length name - length suf) name = suf)"

definition snapshot_files :: "string \<Rightarrow> directory \<Rightarrow> directory" where
  "snapshot_files cid d = rev (sort_key fst (filter (\<lambda>e. glob_match cid (fst e)) d))"

text \<open>\<open>xs[n:]\<close> for a Python integer \<open>n\<close>.\<close>

definition slice_from :: "int \<Rightarrow> 'a list \<Rightarrow> 'a list" where
  "slice_from n xs = (if 0 \<le> n then drop (nat n) xs else drop (nat (int (length xs) + n)) xs)"

text \<open>\<open>_cleanup_old_snapshots\<close>: \<open>f.unlink()\<close> for each file beyond the limit.\<close>

definition unlink :: "string \<Rightarrow> directory \<Rightarrow> directory" where
  "unlink name d = AList.delete name d"

definition cleanup_old_snapshots :: "int \<Rightarrow> string \<Rightarrow> filesystem \<Rightarrow> filesystem" where
  "cleanup_old_snapshots max_per_company cid fs =
     (let fs1 = company_dir cid fs;
          files = snapshot_files cid (entries fs1 cid)
      in if int (length files) > max_per_company then
           fs1(cid \<mapsto>
                 fold (\<lambda>f d. unlink (fst f) d) (slice_from max_per_company files)
                      (entries fs1 cid))
         else fs1)"

text \<open>
  The files that \<open>_cleanup_old_snapshots\<close> unlinks in a directory, which are
  \<open>files[self.max_per_company:]\<close> when the limit is exceeded and none otherwise, and the
  directory that is left.
\<close>

definition pruned_files :: "int \<Rightarrow> string \<Rightarrow> directory \<Rightarrow> directory" where
  "pruned_files N cid d =
     (if int (length (snapshot_files cid d)) > N then slice_from N (snapshot_files cid d) else [])"

definition retained :: "int \<Rightarrow> string \<Rightarrow> directory \<Rightarrow> directory" where
  "retained N cid d = filter (\<lambda>e. fst e \<notin> fst ` set (pruned_files N cid d)) d"

text \<open>
  \<open>save_snapshot\<close>: \<open>now\<close> is the value of \<open>datetime.now()\<close>; \<open>open(filepath, "w")\<close> creates the
  file or replaces its content. The result is the path of the file, relative to
  \<open>base_dir\<close>, and the new file system.
\<close>

definition save_snapshot ::
    "int \<Rightarrow> datetime \<Rightarrow> CompanySnapshot \<Rightarrow> filesystem \<Rightarrow> string \<times> filesystem" where
  "save_snapshot max_per_company now snapshot fs =
     (let fs1 = company_dir (company_id snapshot) fs;
          stamp = strftime now;
          filename = snapshot_filename (company_id snapshot) stamp;
          fs2 = fs1(company_id snapshot \<mapsto>
                      AList.update filename snapshot (entries fs1 (company_id snapshot)));
          fs3 = cleanup_old_snapshots max_per_company (company_id snapshot) fs2
      in (company_id snapshot @ ''/'' @ filename, fs3))"

definition get_latest_snapshot ::
    "string \<Rightarrow> filesystem \<Rightarrow> filesystem \<times> CompanySnapshot option" where
  "get_latest_snapshot cid fs =
     (let fs1 = company_dir cid fs;
          files = snapshot_files cid (entries fs1 cid)
      in (fs1, case files of [] \<Rightarrow> None | f # _ \<Rightarrow> Some (snd f)))"

definition get_previous_snapshot ::
    "string \<Rightarrow> filesystem \<Rightarrow> filesystem \<times> CompanySnapshot option" where
  "get_previous_snapshot cid fs =
     (let fs1 = company_dir cid fs;
          files = snapshot_files cid (entries fs1 cid)
      in (fs1, case files of f0 # f1 # _ \<Rightarrow> Some (snd f1) | _ \<Rightarrow> None))"

definition get_all_snapshots ::
    "string \<Rightarrow> filesystem \<Rightarrow> filesystem \<times> CompanySnapshot list" where
  "get_all_snapshots cid fs =
     (let fs1 = company_dir cid fs;
          files = snapshot_files cid (entries fs1 cid)
      in (fs1, map snd files))"

subsection \<open>Sequences of saves\<close>

text \<open>
  \<open>save_all\<close> calls \<open>save_snapshot\<close> once per element of a list of (clock value, snapshot)
  pairs, in order. \<open>files_of_saves\<close> lists the snapshot files that saves at the given
  clock values write: the name carries the clock value, the content is the snapshot.
\<close>

definition files_of_saves :: "string \<Rightarrow> (datetime \<times> CompanySnapshot) list \<Rightarrow> directory" where
  "files_of_saves cid stored = map (\<lambda>(t, s). (snapshot_filename cid (strftime t), s)) stored"

fun save_all :: "int \<Rightarrow> (datetime \<times> CompanySnapshot) list \<Rightarrow> filesystem \<Rightarrow> filesystem" where
  "save_all N [] fs = fs"
| "save_all N ((now, s) # rest) fs = save_all N rest (snd (save_snapshot N now s fs))"

section \<open>Agent (\<open>tracker/agent.py\<close>)\<close>

text \<open>
  What the outside world does during the scan of one company: whether the registry
  \<open>SCRAPERS\<close> has a scraper for it and what building and running that scraper gives (a
  snapshot or an exception), the clock values read by \<open>save_snapshot\<close> and
  \<open>detect_changes\<close>, and the exception, if any, that writing the snapshot file raises.
  Only exceptions derived from Python's \<open>Exception\<close> are modelled; those are the ones
  \<open>except Exception\<close> catches.
\<close>

record scan_env =
  scraper :: "(error + CompanySnapshot) option"
  save_now :: datetime
  save_error :: "error option"
  detect_now :: string

text \<open>
  \<open>_scan_company\<close>, with the file system passed through: the result is the returned pair or
  the exception raised, and the file system as the call leaves it. A failing write happens
  in \<open>snapshot.save\<close>, after \<open>_company_dir\<close>.
\<close>

definition scan_company ::
    "int \<Rightarrow> scan_env \<Rightarrow> string \<Rightarrow> filesystem
      \<Rightarrow> (error + Change list \<times> CompanySnapshot option) \<times> filesystem" where
  "scan_company max_per_company e cid fs =
     (case scraper e of
        None \<Rightarrow> (Inr ([], None), fs)
      | Some scrape \<Rightarrow>
          (let (fs1, previous) = get_latest_snapshot cid fs
           in case scrape of
                Inl err \<Rightarrow> (Inl err, fs1)
              | Inr new_snapshot \<Rightarrow>
                  (case save_error e of
                     Some err \<Rightarrow> (Inl err, company_dir (company_id new_snapshot) fs1)
                   | None \<Rightarrow>
                       (let (path, fs2) =
                              save_snapshot max_per_company (save_now e) new_snapshot fs1
                        in case previous of
                             None \<Rightarrow> (Inr ([], Some new_snapshot), fs2)
                           | Some p \<Rightarrow>
                               (case detect_changes (detect_now e) p new_snapshot of
                                  Inl err \<Rightarrow> (Inl err, fs2)
                                | Inr changes \<Rightarrow> (Inr (changes, Some new_snapshot), fs2))))))"

text \<open>
  The loop of \<open>run_scan\<close>. The dictionaries \<open>all_changes\<close> and \<open>current_snapshots\<close> are
  association lists; \<open>d[k] = v\<close> is \<open>AList.update\<close>.
\<close>

record scan_state =
  all_changes :: "(string \<times> Change list) list"
  current_snapshots :: "(string \<times> CompanySnapshot) list"
  files :: filesystem

definition scan_step :: "int \<Rightarrow> (string \<Rightarrow> scan_env) \<Rightarrow> string \<Rightarrow> scan_state \<Rightarrow> scan_state" where
  "scan_step max_per_company env cid st =
     (case scan_company max_per_company (env cid) cid (files st) of
        (Inr (changes, snapshot), fs') \<Rightarrow>
          st\<lparr>all_changes := AList.update cid changes (all_changes st),
             current_snapshots :=
               (case snapshot of
                  None \<Rightarrow> current_snapshots st
                | Some s \<Rightarrow> AList.update cid s (current_snapshots st)),
             files := fs'\<rparr>
      | (Inl err, fs') \<Rightarrow>
          st\<lparr>all_changes := AList.update cid [] (all_changes st), files := fs'\<rparr>)"

definition run_scan_loop ::
    "int \<Rightarrow> (string \<Rightarrow> scan_env) \<Rightarrow> string list \<Rightarrow> filesystem \<Rightarrow> scan_state" where
  "run_scan_loop max_per_company env company_ids fs =
     fold (scan_step max_per_company env) company_ids
       \<lparr>all_changes = [], current_snapshots = [], files = fs\<rparr>"

text \<open>
  \<open>run_scan\<close>: after the loop the report is generated, printed and saved, outside the
  \<open>try\<close>; \<open>report_error\<close> is the exception that stage raises, if any. Otherwise
  \<open>all_changes\<close> is returned.
\<close>

definition run_scan ::
    "int \<Rightarrow> (string \<Rightarrow> scan_env) \<Rightarrow> error option \<Rightarrow> string list \<Rightarrow> filesystem
      \<Rightarrow> (error + (string \<times> Change list) list) \<times> filesystem" where
  "run_scan max_per_company env report_error company_ids fs =
     (let st = run_scan_loop max_per_company env company_ids fs
      in case report_error of
           Some err \<Rightarrow> (Inl err, files st)
         | None \<Rightarrow> (Inr (all_changes st), files st))"

text \<open>What \<open>run_scan\<close> records for a company whose scan returned or raised.\<close>

definition recorded_changes ::
    "(error + Change list \<times> CompanySnapshot option) \<Rightarrow> Change list" where
  "recorded_changes r = (case r of Inl err \<Rightarrow> [] | Inr (changes, snapshot) \<Rightarrow> changes)"

section \<open>Example snapshots\<close>

text \<open>Two snapshots of one company, used to instantiate the theorems below.\<close>


definition example_old :: CompanySnapshot where
  "example_old =
     \<lparr>company_id = ''fixo'', timestamp = ''2025-01-01T09:00:00'',
      services = [''A'', ''B''],
      pricing = [(''basic'', ''10'' @ euro), (''pro'', ''30''), (''legacy'', ''5'')],
      locations = [''Lisboa''],
      promotions = [''P1''],
      business_info = [(''about_text_hash'', ''h1''), (''about_text_preview'', ''we fix'')],
      raw_pages = [(''home'', ''aaa''), (''about'', [])],
      metadata = []\<rparr>"

definition example_new :: CompanySnapshot where
  "example_new =
     \<lparr>company_id = ''fixo'', timestamp = ''2025-01-02T09:00:00'',
      services = [''B'', ''C''],
      pricing = [(''basic'', ''12'' @ euro), (''pro'', ''30''), (''extra'', ''7'')],
      locations = [''Lisboa'', ''Porto''],
      promotions = [],
      business_info = [(''about_text_hash'', ''h2''), (''about_text_preview'', ''we repair'')],
      raw_pages = [(''home'', ''bbb''), (''about'', ''ccc'')],
      metadata = []\<rparr>"

definition example_forward_changes :: "Change list" where
  "example_forward_changes =
     [service_added ''fixo'' ''t1'' ''C'',
      service_removed ''fixo'' ''t1'' ''A'',
      price_removed ''fixo'' ''t1'' ''legacy'' (Some ''5''),
      price_altered ''fixo'' ''t1'' ''basic'' (Some (''10'' @ euro)) (Some (''12'' @ euro)),
      price_new ''fixo'' ''t1'' ''extra'' (Some ''7''),
      location_added ''fixo'' ''t1'' ''Porto'',
      promotion_expired ''fixo'' ''t1'' ''P1'',
      business_model_change ''fixo'' ''t1'' ''we fix'' ''we repair'',
      website_content_change ''fixo'' ''t1'' ''home'' ''aaa'' ''bbb'']"

definition example_backward_changes :: "Change list" where
  "example_backward_changes =
     [service_added ''fixo'' ''t2'' ''A'',
      service_removed ''fixo'' ''t2'' ''C'',
      price_removed ''fixo'' ''t2'' ''extra'' (Some ''7''),
      price_altered ''fixo'' ''t2'' ''basic'' (Some (''12'' @ euro)) (Some (''10'' @ euro)),
      price_new ''fixo'' ''t2'' ''legacy'' (Some ''5''),
      location_removed ''fixo'' ''t2'' ''Porto'',
      promotion_new ''fixo'' ''t2'' ''P1'',
      business_model_change ''fixo'' ''t2'' ''we repair'' ''we fix'',
      website_content_change ''fixo'' ''t2'' ''home'' ''bbb'' ''aaa'']"

text \<open>Two clock values, and file systems reached by saving the examples at them.\<close>

definition example_t1 :: datetime where
  "example_t1 = \<lparr>year = 2025, month = 1, day = 1, hour = 9, minute = 0, second = 0\<rparr>"

definition example_t2 :: datetime where
  "example_t2 = \<lparr>year = 2025, month = 1, day = 2, hour = 9, minute = 30, second = 5\<rparr>"

definition example_fs1 :: filesystem where
  "example_fs1 = snd (save_snapshot 90 example_t1 example_old Map.empty)"

definition example_fs2 :: filesystem where
  "example_fs2 = snd (save_snapshot 90 example_t2 example_new Map.empty)"

definition example_fs :: filesystem where
  "example_fs = snd (save_snapshot 90 example_t1 example_old example_fs2)"

text \<open>A second company, whose snapshot cannot be written, and the outside world of a scan.\<close>

definition example_webel :: CompanySnapshot where
  "example_webel =
     \<lparr>company_id = ''webel'', timestamp = ''2025-01-02T09:30:00'',
      services = [''Canalizador''], pricing = [], locations = [], promotions = [],
      business_info = [], raw_pages = [], metadata = []\<rparr>"

definition example_env :: "string \<Rightarrow> scan_env" where
  "example_env cid =
     (if cid = ''webel'' then
        \<lparr>scraper = Some (Inr example_webel), save_now = example_t2,
         save_error = Some (OSError ''No space left on device''), detect_now = ''t1''\<rparr>
      else
        \<lparr>scraper = Some (Inr example_new), save_now = example_t2,
         save_error = None, detect_now = ''t1''\<rparr>)"

section \<open>Properties of the change detector\<close>

lemma set_difference_self: "set_difference xs xs = []"
  by (simp add: set_difference_def)

lemma pricing_changes_of_key_self: "pricing_changes_of_key s s ts key = []"
  by (simp add: pricing_changes_of_key_def Let_def)

lemma page_changes_of_page_self: "page_changes_of_page s s ts page = []"
  by (simp add: page_changes_of_page_def Let_def)

lemma set_set_difference [simp]: "set (set_difference xs ys) = set xs - set ys"
  by (auto simp: set_difference_def)

lemma distinct_set_difference [simp]: "distinct (set_difference xs ys)"
  by (simp add: set_difference_def)

lemma set_set_of_lists [simp]: "set (set_of_lists xs ys) = set xs \<union> set ys"
  by (simp add: set_of_lists_def)

lemma distinct_set_of_lists [simp]: "distinct (set_of_lists xs ys)"
  by (simp add: set_of_lists_def)

lemma set_detect_service_changes:
  "set (detect_service_changes old new ts)
     = service_added (company_id new) ts ` (set (services new) - set (services old))
       \<union> service_removed (company_id new) ts ` (set (services old) - set (services new))"
  by (simp add: detect_service_changes_def)

lemma set_detect_location_changes:
  "set (detect_location_changes old new ts)
     = location_added (company_id new) ts ` (set (locations new) - set (locations old))
       \<union> location_removed (company_id new) ts ` (set (locations old) - set (locations new))"
  by (simp add: detect_location_changes_def)

lemma set_detect_promotion_changes:
  "set (detect_promotion_changes old new ts)
     = promotion_new (company_id new) ts ` (set (promotions new) - set (promotions old))
       \<union> promotion_expired (company_id new) ts ` (set (promotions old) - set (promotions new))"
  by (simp add: detect_promotion_changes_def)

lemma in_keys_if_Some: "map_of d k = Some v \<Longrightarrow> k \<in> set (dict_keys d)"
  by (auto simp: dict_keys_def dest: map_of_SomeD intro: rev_image_eqI)

lemma set_pricing_changes_of_key:
  "set (pricing_changes_of_key old new ts key)
     = {c. \<exists>v. map_of (pricing old) key = None \<and> map_of (pricing new) key = Some v
              \<and> c = price_new (company_id new) ts key (Some v)}
       \<union> {c. \<exists>v. map_of (pricing old) key = Some v \<and> map_of (pricing new) key = None
              \<and> c = price_removed (company_id new) ts key (Some v)}
       \<union> {c. \<exists>v w. map_of (pricing old) key = Some v \<and> map_of (pricing new) key = Some w
              \<and> v \<noteq> w \<and> c = price_altered (company_id new) ts key (Some v) (Some w)}"
  by (cases "map_of (pricing old) key"; cases "map_of (pricing new) key")
     (auto simp: pricing_changes_of_key_def dict_get_def)

lemma set_detect_pricing_changes:
  "set (detect_pricing_changes old new ts)
     = {c. \<exists>key v. map_of (pricing old) key = None \<and> map_of (pricing new) key = Some v
              \<and> c = price_new (company_id new) ts key (Some v)}
       \<union> {c. \<exists>key v. map_of (pricing old) key = Some v \<and> map_of (pricing new) key = None
              \<and> c = price_removed (company_id new) ts key (Some v)}
       \<union> {c. \<exists>key v w. map_of (pricing old) key = Some v \<and> map_of (pricing new) key = Some w
              \<and> v \<noteq> w \<and> c = price_altered (company_id new) ts key (Some v) (Some w)}"
  (is "?L = ?R")
proof (rule set_eqI)
  fix c
  have "c \<in> ?L \<longleftrightarrow>
        (\<exists>key \<in> set (dict_keys (pricing old)) \<union> set (dict_keys (pricing new)).
            c \<in> set (pricing_changes_of_key old new ts key))"
    by (auto simp: detect_pricing_changes_def Let_def)
  also have "\<dots> \<longleftrightarrow> (\<exists>key. c \<in> set (pricing_changes_of_key old new ts key))"
    by (auto simp: set_pricing_changes_of_key dest: in_keys_if_Some)
  also have "\<dots> \<longleftrightarrow> c \<in> ?R"
    by (simp add: set_pricing_changes_of_key) blast
  finally show "c \<in> ?L \<longleftrightarrow> c \<in> ?R" .
qed

lemma set_detect_business_changes:
  "set (detect_business_changes old new ts)
     = {c. dict_get_default (business_info old) ''about_text_hash'' '''' \<noteq> ''''
         \<and> dict_get_default (business_info new) ''about_text_hash'' '''' \<noteq> ''''
         \<and> dict_get_default (business_info old) ''about_text_hash'' ''''
             \<noteq> dict_get_default (business_info new) ''about_text_hash'' ''''
         \<and> c = business_model_change (company_id new) ts
                 (dict_get_default (business_info old) ''about_text_preview'' '''')
                 (dict_get_default (business_info new) ''about_text_preview'' '''')}"
  by (auto simp: detect_business_changes_def Let_def)

lemma set_page_changes_of_page:
  "set (page_changes_of_page old new ts page)
     = {c. \<exists>oh nh. map_of (raw_pages old) page = Some oh \<and> map_of (raw_pages new) page = Some nh
           \<and> oh \<noteq> '''' \<and> nh \<noteq> '''' \<and> oh \<noteq> nh
           \<and> c = website_content_change (company_id new) ts page oh nh}"
  by (auto simp: page_changes_of_page_def Let_def dict_get_default_def split: option.splits)

lemma set_detect_page_changes:
  "set (detect_page_changes old new ts)
     = {c. \<exists>page oh nh. map_of (raw_pages old) page = Some oh
           \<and> map_of (raw_pages new) page = Some nh
           \<and> oh \<noteq> '''' \<and> nh \<noteq> '''' \<and> oh \<noteq> nh
           \<and> c = website_content_change (company_id new) ts page oh nh}"
  (is "?L = ?R")
proof (rule set_eqI)
  fix c
  have "c \<in> ?L \<longleftrightarrow>
        (\<exists>page \<in> set (dict_keys (raw_pages old)) \<union> set (dict_keys (raw_pages new)).
            c \<in> set (page_changes_of_page old new ts page))"
    by (auto simp: detect_page_changes_def Let_def)
  also have "\<dots> \<longleftrightarrow> (\<exists>page. c \<in> set (page_changes_of_page old new ts page))"
    by (auto simp: set_page_changes_of_page dest: in_keys_if_Some)
  also have "\<dots> \<longleftrightarrow> c \<in> ?R"
    by (simp add: set_page_changes_of_page)
  finally show "c \<in> ?L \<longleftrightarrow> c \<in> ?R" .
qed

lemmas change_defs =
  service_added_def service_removed_def price_new_def price_removed_def price_altered_def
  location_added_def location_removed_def promotion_new_def promotion_expired_def
  business_model_change_def website_content_change_def

lemma set_detect_changes:
  assumes "detect_changes now old new = Inr cs"
  shows "set cs = set (detect_service_changes old new now)
                  \<union> set (detect_pricing_changes old new now)
                  \<union> set (detect_location_changes old new now)
                  \<union> set (detect_promotion_changes old new now)
                  \<union> set (detect_business_changes old new now)
                  \<union> set (detect_page_changes old new now)"
  using assms by (auto simp: detect_changes_def split: if_splits)

lemma length_detect_service_changes:
  "length (detect_service_changes old new ts) = length (detect_service_changes new old ts')"
  by (simp add: detect_service_changes_def)

lemma length_detect_location_changes:
  "length (detect_location_changes old new ts) = length (detect_location_changes new old ts')"
  by (simp add: detect_location_changes_def)

lemma length_detect_promotion_changes:
  "length (detect_promotion_changes old new ts) = length (detect_promotion_changes new old ts')"
  by (simp add: detect_promotion_changes_def)

lemma length_pricing_changes_of_key:
  "length (pricing_changes_of_key old new ts key) = length (pricing_changes_of_key new old ts' key)"
  by (auto simp: pricing_changes_of_key_def Let_def)

lemma length_concat_distinct:
  assumes "distinct xs"
  shows "length (concat (map f xs)) = (\<Sum>x\<in>set xs. length (f x))"
  using assms by (simp add: length_concat comp_def sum_list_distinct_conv_sum_set)

lemma length_detect_pricing_changes:
  "length (detect_pricing_changes old new ts) = length (detect_pricing_changes new old ts')"
proof -
  have "length (detect_pricing_changes old new ts)
        = (\<Sum>k\<in>set (dict_keys (pricing old)) \<union> set (dict_keys (pricing new)).
             length (pricing_changes_of_key old new ts k))"
    by (simp add: detect_pricing_changes_def Let_def length_concat_distinct)
  also have "\<dots> = (\<Sum>k\<in>set (dict_keys (pricing new)) \<union> set (dict_keys (pricing old)).
             length (pricing_changes_of_key new old ts' k))"
    by (simp add: Un_commute length_pricing_changes_of_key [of old new ts _ ts'])
  also have "\<dots> = length (detect_pricing_changes new old ts')"
    by (simp add: detect_pricing_changes_def Let_def length_concat_distinct)
  finally show ?thesis .
qed

lemma length_detect_business_changes:
  "length (detect_business_changes old new ts) = length (detect_business_changes new old ts')"
  by (auto simp: detect_business_changes_def Let_def)

lemma length_page_changes_of_page:
  "length (page_changes_of_page old new ts page) = length (page_changes_of_page new old ts' page)"
  by (auto simp: page_changes_of_page_def Let_def)

lemma length_detect_page_changes:
  "length (detect_page_changes old new ts) = length (detect_page_changes new old ts')"
proof -
  have "length (detect_page_changes old new ts)
        = (\<Sum>k\<in>set (dict_keys (raw_pages old)) \<union> set (dict_keys (raw_pages new)).
             length (page_changes_of_page old new ts k))"
    by (simp add: detect_page_changes_def Let_def length_concat_distinct)
  also have "\<dots> = (\<Sum>k\<in>set (dict_keys (raw_pages new)) \<union> set (dict_keys (raw_pages old)).
             length (page_changes_of_page new old ts' k))"
    by (simp add: Un_commute length_page_changes_of_page [of old new ts _ ts'])
  also have "\<dots> = length (detect_page_changes new old ts')"
    by (simp add: detect_page_changes_def Let_def length_concat_distinct)
  finally show ?thesis .
qed

lemma length_detect_changes:
  assumes "detect_changes now old new = Inr cs" and "detect_changes now' new old = Inr cs'"
  shows "length cs = length cs'"
proof -
  have "cs = detect_service_changes old new now @ detect_pricing_changes old new now
             @ detect_location_changes old new now @ detect_promotion_changes old new now
             @ detect_business_changes old new now @ detect_page_changes old new now"
    using assms(1) by (auto simp: detect_changes_def split: if_splits)
  moreover have "cs' = detect_service_changes new old now' @ detect_pricing_changes new old now'
             @ detect_location_changes new old now' @ detect_promotion_changes new old now'
             @ detect_business_changes new old now' @ detect_page_changes new old now'"
    using assms(2) by (auto simp: detect_changes_def split: if_splits)
  ultimately show ?thesis
    using length_detect_service_changes [of old new now now']
      length_detect_pricing_changes [of old new now now']
      length_detect_location_changes [of old new now now']
      length_detect_promotion_changes [of old new now now']
      length_detect_business_changes [of old new now now']
      length_detect_page_changes [of old new now now']
    by simp
qed

lemma change_type_simps:
  "change_type (service_added cid ts x) = ''service_added''"
  "change_type (service_removed cid ts x) = ''service_removed''"
  "change_type (location_added cid ts x) = ''location_added''"
  "change_type (location_removed cid ts x) = ''location_removed''"
  "change_type (promotion_new cid ts x) = ''promotion_new''"
  "change_type (promotion_expired cid ts x) = ''promotion_expired''"
  "change_type (price_new cid ts k p) = ''price_changed''"
  "change_type (price_removed cid ts k p) = ''price_changed''"
  "change_type (price_altered cid ts k p q) = ''price_changed''"
  "change_type (business_model_change cid ts g h) = ''business_model_change''"
  "change_type (website_content_change cid ts page g h) = ''website_content_change''"
  by (simp_all add: change_defs)

lemma type_of_service_changes:
  "c \<in> set (detect_service_changes old new ts) \<Longrightarrow>
     change_type c = ''service_added'' \<or> change_type c = ''service_removed''"
  unfolding set_detect_service_changes by (auto simp: change_type_simps)

lemma type_of_pricing_changes:
  "c \<in> set (detect_pricing_changes old new ts) \<Longrightarrow> change_type c = ''price_changed''"
  unfolding set_detect_pricing_changes by (auto simp: change_type_simps)

lemma type_of_location_changes:
  "c \<in> set (detect_location_changes old new ts) \<Longrightarrow>
     change_type c = ''location_added'' \<or> change_type c = ''location_removed''"
  unfolding set_detect_location_changes by (auto simp: change_type_simps)

lemma type_of_promotion_changes:
  "c \<in> set (detect_promotion_changes old new ts) \<Longrightarrow>
     change_type c = ''promotion_new'' \<or> change_type c = ''promotion_expired''"
  unfolding set_detect_promotion_changes by (auto simp: change_type_simps)

lemma type_of_business_changes:
  "c \<in> set (detect_business_changes old new ts) \<Longrightarrow>
     change_type c = ''business_model_change''"
  unfolding set_detect_business_changes by (auto simp: change_type_simps)

lemma type_of_page_changes:
  "c \<in> set (detect_page_changes old new ts) \<Longrightarrow>
     change_type c = ''website_content_change''"
  unfolding set_detect_page_changes by (auto simp: change_type_simps)

lemmas type_of_changes =
  type_of_service_changes type_of_pricing_changes type_of_location_changes
  type_of_promotion_changes type_of_business_changes type_of_page_changes

lemma service_typed_in:
  assumes "detect_changes now old new = Inr cs"
    and "change_type c = ''service_added'' \<or> change_type c = ''service_removed''"
  shows "c \<in> set cs \<longleftrightarrow> c \<in> set (detect_service_changes old new now)"
  unfolding set_detect_changes [OF assms(1)] using assms(2)
  by (auto dest: type_of_changes)

lemma price_typed_in:
  assumes "detect_changes now old new = Inr cs" and "change_type c = ''price_changed''"
  shows "c \<in> set cs \<longleftrightarrow> c \<in> set (detect_pricing_changes old new now)"
  unfolding set_detect_changes [OF assms(1)] using assms(2)
  by (auto dest: type_of_changes)

lemma location_typed_in:
  assumes "detect_changes now old new = Inr cs"
    and "change_type c = ''location_added'' \<or> change_type c = ''location_removed''"
  shows "c \<in> set cs \<longleftrightarrow> c \<in> set (detect_location_changes old new now)"
  unfolding set_detect_changes [OF assms(1)] using assms(2)
  by (auto dest: type_of_changes)

lemma promotion_typed_in:
  assumes "detect_changes now old new = Inr cs"
    and "change_type c = ''promotion_new'' \<or> change_type c = ''promotion_expired''"
  shows "c \<in> set cs \<longleftrightarrow> c \<in> set (detect_promotion_changes old new now)"
  unfolding set_detect_changes [OF assms(1)] using assms(2)
  by (auto dest: type_of_changes)

lemma business_typed_in:
  assumes "detect_changes now old new = Inr cs"
    and "change_type c = ''business_model_change''"
  shows "c \<in> set cs \<longleftrightarrow> c \<in> set (detect_business_changes old new now)"
  unfolding set_detect_changes [OF assms(1)] using assms(2)
  by (auto dest: type_of_changes)

lemma page_typed_in:
  assumes "detect_changes now old new = Inr cs"
    and "change_type c = ''website_content_change''"
  shows "c \<in> set cs \<longleftrightarrow> c \<in> set (detect_page_changes old new now)"
  unfolding set_detect_changes [OF assms(1)] using assms(2)
  by (auto dest: type_of_changes)

lemma service_added_own:
  "service_added cid ts x \<in> set (detect_service_changes old new ts')
     \<longleftrightarrow> cid = company_id new \<and> ts = ts' \<and> x \<in> set (services new) - set (services old)"
  unfolding set_detect_service_changes
  by (auto simp: service_added_def service_removed_def)

lemma service_removed_own:
  "service_removed cid ts x \<in> set (detect_service_changes old new ts')
     \<longleftrightarrow> cid = company_id new \<and> ts = ts' \<and> x \<in> set (services old) - set (services new)"
  unfolding set_detect_service_changes
  by (auto simp: service_added_def service_removed_def)

lemma location_added_own:
  "location_added cid ts x \<in> set (detect_location_changes old new ts')
     \<longleftrightarrow> cid = company_id new \<and> ts = ts' \<and> x \<in> set (locations new) - set (locations old)"
  unfolding set_detect_location_changes
  by (auto simp: location_added_def location_removed_def)

lemma location_removed_own:
  "location_removed cid ts x \<in> set (detect_location_changes old new ts')
     \<longleftrightarrow> cid = company_id new \<and> ts = ts' \<and> x \<in> set (locations old) - set (locations new)"
  unfolding set_detect_location_changes
  by (auto simp: location_added_def location_removed_def)

lemma promotion_new_own:
  "promotion_new cid ts x \<in> set (detect_promotion_changes old new ts')
     \<longleftrightarrow> cid = company_id new \<and> ts = ts' \<and> x \<in> set (promotions new) - set (promotions old)"
  unfolding set_detect_promotion_changes
  by (auto simp: promotion_new_def promotion_expired_def)

lemma promotion_expired_own:
  "promotion_expired cid ts x \<in> set (detect_promotion_changes old new ts')
     \<longleftrightarrow> cid = company_id new \<and> ts = ts' \<and> x \<in> set (promotions old) - set (promotions new)"
  unfolding set_detect_promotion_changes
  by (auto simp: promotion_new_def promotion_expired_def)

lemma price_new_own:
  "price_new cid ts key (Some v) \<in> set (detect_pricing_changes old new ts')
     \<longleftrightarrow> cid = company_id new \<and> ts = ts' \<and> map_of (pricing old) key = None \<and> map_of (pricing new) key = Some v"
  unfolding set_detect_pricing_changes
  by (auto simp: price_new_def price_removed_def price_altered_def)

lemma price_removed_own:
  "price_removed cid ts key (Some v) \<in> set (detect_pricing_changes old new ts')
     \<longleftrightarrow> cid = company_id new \<and> ts = ts' \<and> map_of (pricing old) key = Some v \<and> map_of (pricing new) key = None"
  unfolding set_detect_pricing_changes
  by (auto simp: price_new_def price_removed_def price_altered_def)

lemma price_altered_own:
  "price_altered cid ts key (Some v) (Some w) \<in> set (detect_pricing_changes old new ts')
     \<longleftrightarrow> cid = company_id new \<and> ts = ts' \<and> map_of (pricing old) key = Some v \<and> map_of (pricing new) key = Some w \<and> v \<noteq> w"
  unfolding set_detect_pricing_changes
  by (auto simp: price_new_def price_removed_def price_altered_def)

lemma business_model_change_own:
  "business_model_change cid ts p q \<in> set (detect_business_changes old new ts')
     \<longleftrightarrow> cid = company_id new \<and> ts = ts' \<and> dict_get_default (business_info old) ''about_text_hash'' [] \<noteq> [] \<and> dict_get_default (business_info new) ''about_text_hash'' [] \<noteq> [] \<and> dict_get_default (business_info old) ''about_text_hash'' [] \<noteq> dict_get_default (business_info new) ''about_text_hash'' [] \<and> p = dict_get_default (business_info old) ''about_text_preview'' [] \<and> q = dict_get_default (business_info new) ''about_text_preview'' []"
  unfolding set_detect_business_changes
  by (auto simp: business_model_change_def)

lemma website_content_change_own:
  "website_content_change cid ts page g h \<in> set (detect_page_changes old new ts')
     \<longleftrightarrow> cid = company_id new \<and> ts = ts' \<and> (\<exists>oh nh. map_of (raw_pages old) page = Some oh \<and> map_of (raw_pages new) page = Some nh \<and> oh \<noteq> [] \<and> nh \<noteq> [] \<and> oh \<noteq> nh \<and> take 16 g = take 16 oh \<and> take 16 h = take 16 nh)"
  unfolding set_detect_page_changes
  by (auto simp: website_content_change_def)

lemmas own_category =
  service_added_own service_removed_own location_added_own location_removed_own
  promotion_new_own promotion_expired_own price_new_own price_removed_own price_altered_own
  business_model_change_own website_content_change_own

lemmas detector_defs =
  detect_changes_def detect_service_changes_def detect_pricing_changes_def
  detect_location_changes_def detect_promotion_changes_def detect_business_changes_def
  detect_page_changes_def pricing_changes_of_key_def page_changes_of_page_def
  set_difference_def set_of_lists_def dict_get_def dict_get_default_def dict_keys_def

lemma example_forward:
  "detect_changes ''t1'' example_old example_new = Inr example_forward_changes"
  by (simp add: example_old_def example_new_def detector_defs example_forward_changes_def)

lemma example_backward:
  "detect_changes ''t2'' example_new example_old = Inr example_backward_changes"
  by (simp add: example_old_def example_new_def detector_defs example_backward_changes_def)

lemma example_company_id:
  "company_id example_old = ''fixo''" "company_id example_new = ''fixo''"
  by (simp_all add: example_old_def example_new_def)

text \<open>
  C1. Comparing two snapshots of different companies fails: \<open>detect_changes\<close> raises the
  mismatch error (in the code a \<open>ValueError\<close> with the message below) and returns no list of
  changes at all.
\<close>

theorem detect_changes_mismatch:
  "company_id old \<noteq> company_id new \<Longrightarrow>
     detect_changes now old new = Inl (ValueError ''Snapshots devem ser da mesma empresa'')"
  by (simp add: detect_changes_def)

theorem detect_changes_mismatch_witness:
  "detect_changes ''2025-01-01T10:00:00''
     \<lparr>company_id = ''fixo'', timestamp = ''t0'', services = [''A''], pricing = [],
      locations = [], promotions = [], business_info = [], raw_pages = [], metadata = []\<rparr>
     \<lparr>company_id = ''webel'', timestamp = ''t1'', services = [''B''], pricing = [],
      locations = [], promotions = [], business_info = [], raw_pages = [], metadata = []\<rparr>
   = Inl (ValueError ''Snapshots devem ser da mesma empresa'')"
  using detect_changes_mismatch
    [of "\<lparr>company_id = ''fixo'', timestamp = ''t0'', services = [''A''], pricing = [],
           locations = [], promotions = [], business_info = [], raw_pages = [],
           metadata = []\<rparr>"
        "\<lparr>company_id = ''webel'', timestamp = ''t1'', services = [''B''], pricing = [],
           locations = [], promotions = [], business_info = [], raw_pages = [],
           metadata = []\<rparr>"
        "''2025-01-01T10:00:00''"]
  by simp

text \<open>
  C3. A snapshot compared with itself yields the empty list of changes: none of the six
  categories emits anything.
\<close>

theorem detect_changes_self:
  "detect_changes now s s = Inr []
   \<and> detect_service_changes s s now = [] \<and> detect_pricing_changes s s now = []
   \<and> detect_location_changes s s now = [] \<and> detect_promotion_changes s s now = []
   \<and> detect_business_changes s s now = [] \<and> detect_page_changes s s now = []"
  by (simp add: detect_changes_def detect_service_changes_def detect_pricing_changes_def
      detect_location_changes_def detect_promotion_changes_def detect_business_changes_def
      detect_page_changes_def set_difference_self pricing_changes_of_key_self
      page_changes_of_page_self Let_def)

theorem detect_changes_self_witness:
  "detect_changes ''t1'' example_new example_new = Inr []"
  using detect_changes_self [of "''t1''" example_new] by simp

text \<open>
  C7. For two snapshots of one company the two directions of the comparison mirror each
  other. An added service, location or promotion of one direction is the removed (expired)
  one of the other, for the same item; a price that appears in one direction disappears in
  the other, for the same key and value; a changed price, a changed ``about'' text and a
  changed page appear in both directions with \<open>old_value\<close> and \<open>new_value\<close> exchanged. Every
  change is of one of these kinds, and both directions report the same number of changes.
\<close>

theorem detect_changes_mirror:
  assumes same: "company_id old = company_id new"
    and fwd: "detect_changes now old new = Inr cs"
    and bwd: "detect_changes now' new old = Inr cs'"
  shows "(\<forall>x. service_added (company_id new) now x \<in> set cs
              \<longleftrightarrow> service_removed (company_id new) now' x \<in> set cs')
       \<and> (\<forall>x. service_removed (company_id new) now x \<in> set cs
              \<longleftrightarrow> service_added (company_id new) now' x \<in> set cs')
       \<and> (\<forall>x. location_added (company_id new) now x \<in> set cs
              \<longleftrightarrow> location_removed (company_id new) now' x \<in> set cs')
       \<and> (\<forall>x. location_removed (company_id new) now x \<in> set cs
              \<longleftrightarrow> location_added (company_id new) now' x \<in> set cs')
       \<and> (\<forall>x. promotion_new (company_id new) now x \<in> set cs
              \<longleftrightarrow> promotion_expired (company_id new) now' x \<in> set cs')
       \<and> (\<forall>x. promotion_expired (company_id new) now x \<in> set cs
              \<longleftrightarrow> promotion_new (company_id new) now' x \<in> set cs')
       \<and> (\<forall>key v. price_new (company_id new) now key (Some v) \<in> set cs
              \<longleftrightarrow> price_removed (company_id new) now' key (Some v) \<in> set cs')
       \<and> (\<forall>key v. price_removed (company_id new) now key (Some v) \<in> set cs
              \<longleftrightarrow> price_new (company_id new) now' key (Some v) \<in> set cs')
       \<and> (\<forall>key v w. price_altered (company_id new) now key (Some v) (Some w) \<in> set cs
              \<longleftrightarrow> price_altered (company_id new) now' key (Some w) (Some v) \<in> set cs')
       \<and> (\<forall>p q. business_model_change (company_id new) now p q \<in> set cs
              \<longleftrightarrow> business_model_change (company_id new) now' q p \<in> set cs')
       \<and> (\<forall>page g h. website_content_change (company_id new) now page g h \<in> set cs
              \<longleftrightarrow> website_content_change (company_id new) now' page h g \<in> set cs')
       \<and> (\<forall>c \<in> set cs.
             (\<exists>x. c = service_added (company_id new) now x)
           \<or> (\<exists>x. c = service_removed (company_id new) now x)
           \<or> (\<exists>x. c = location_added (company_id new) now x)
           \<or> (\<exists>x. c = location_removed (company_id new) now x)
           \<or> (\<exists>x. c = promotion_new (company_id new) now x)
           \<or> (\<exists>x. c = promotion_expired (company_id new) now x)
           \<or> (\<exists>key v. c = price_new (company_id new) now key (Some v))
           \<or> (\<exists>key v. c = price_removed (company_id new) now key (Some v))
           \<or> (\<exists>key v w. c = price_altered (company_id new) now key (Some v) (Some w))
           \<or> (\<exists>p q. c = business_model_change (company_id new) now p q)
           \<or> (\<exists>page g h. c = website_content_change (company_id new) now page g h))
       \<and> length cs = length cs'"
proof -
  note T = service_typed_in [OF fwd] service_typed_in [OF bwd]
    location_typed_in [OF fwd] location_typed_in [OF bwd]
    promotion_typed_in [OF fwd] promotion_typed_in [OF bwd]
    price_typed_in [OF fwd] price_typed_in [OF bwd]
    business_typed_in [OF fwd] business_typed_in [OF bwd]
    page_typed_in [OF fwd] page_typed_in [OF bwd]
    change_type_simps own_category
  have 1: "\<forall>x. service_added (company_id new) now x \<in> set cs
              \<longleftrightarrow> service_removed (company_id new) now' x \<in> set cs'"
    using same by (auto simp: T)
  have 2: "\<forall>x. service_removed (company_id new) now x \<in> set cs
              \<longleftrightarrow> service_added (company_id new) now' x \<in> set cs'"
    using same by (auto simp: T)
  have 3: "\<forall>x. location_added (company_id new) now x \<in> set cs
              \<longleftrightarrow> location_removed (company_id new) now' x \<in> set cs'"
    using same by (auto simp: T)
  have 4: "\<forall>x. location_removed (company_id new) now x \<in> set cs
              \<longleftrightarrow> location_added (company_id new) now' x \<in> set cs'"
    using same by (auto simp: T)
  have 5: "\<forall>x. promotion_new (company_id new) now x \<in> set cs
              \<longleftrightarrow> promotion_expired (company_id new) now' x \<in> set cs'"
    using same by (auto simp: T)
  have 6: "\<forall>x. promotion_expired (company_id new) now x \<in> set cs
              \<longleftrightarrow> promotion_new (company_id new) now' x \<in> set cs'"
    using same by (auto simp: T)
  have 7: "\<forall>key v. price_new (company_id new) now key (Some v) \<in> set cs
              \<longleftrightarrow> price_removed (company_id new) now' key (Some v) \<in> set cs'"
    using same by (auto simp: T)
  have 8: "\<forall>key v. price_removed (company_id new) now key (Some v) \<in> set cs
              \<longleftrightarrow> price_new (company_id new) now' key (Some v) \<in> set cs'"
    using same by (auto simp: T)
  have 9: "\<forall>key v w. price_altered (company_id new) now key (Some v) (Some w) \<in> set cs
              \<longleftrightarrow> price_altered (company_id new) now' key (Some w) (Some v) \<in> set cs'"
    using same by (auto simp: T)
  have 10: "\<forall>p q. business_model_change (company_id new) now p q \<in> set cs
              \<longleftrightarrow> business_model_change (company_id new) now' q p \<in> set cs'"
    using same by (auto simp: T)
  have 11: "\<forall>page g h. website_content_change (company_id new) now page g h \<in> set cs
              \<longleftrightarrow> website_content_change (company_id new) now' page h g \<in> set cs'"
    using same by (auto simp: T)
  have 12: "\<forall>c \<in> set cs.
             (\<exists>x. c = service_added (company_id new) now x)
           \<or> (\<exists>x. c = service_removed (company_id new) now x)
           \<or> (\<exists>x. c = location_added (company_id new) now x)
           \<or> (\<exists>x. c = location_removed (company_id new) now x)
           \<or> (\<exists>x. c = promotion_new (company_id new) now x)
           \<or> (\<exists>x. c = promotion_expired (company_id new) now x)
           \<or> (\<exists>key v. c = price_new (company_id new) now key (Some v))
           \<or> (\<exists>key v. c = price_removed (company_id new) now key (Some v))
           \<or> (\<exists>key v w. c = price_altered (company_id new) now key (Some v) (Some w))
           \<or> (\<exists>p q. c = business_model_change (company_id new) now p q)
           \<or> (\<exists>page g h. c = website_content_change (company_id new) now page g h)"
  proof
    fix c
    assume "c \<in> set cs"
    then consider
        "c \<in> set (detect_service_changes old new now)"
      | "c \<in> set (detect_pricing_changes old new now)"
      | "c \<in> set (detect_location_changes old new now)"
      | "c \<in> set (detect_promotion_changes old new now)"
      | "c \<in> set (detect_business_changes old new now)"
      | "c \<in> set (detect_page_changes old new now)"
      unfolding set_detect_changes [OF fwd] by blast
    then show "(\<exists>x. c = service_added (company_id new) now x)
           \<or> (\<exists>x. c = service_removed (company_id new) now x)
           \<or> (\<exists>x. c = location_added (company_id new) now x)
           \<or> (\<exists>x. c = location_removed (company_id new) now x)
           \<or> (\<exists>x. c = promotion_new (company_id new) now x)
           \<or> (\<exists>x. c = promotion_expired (company_id new) now x)
           \<or> (\<exists>key v. c = price_new (company_id new) now key (Some v))
           \<or> (\<exists>key v. c = price_removed (company_id new) now key (Some v))
           \<or> (\<exists>key v w. c = price_altered (company_id new) now key (Some v) (Some w))
           \<or> (\<exists>p q. c = business_model_change (company_id new) now p q)
           \<or> (\<exists>page g h. c = website_content_change (company_id new) now page g h)"
    proof cases
      case 1 then show ?thesis unfolding set_detect_service_changes by blast
    next
      case 2 then show ?thesis unfolding set_detect_pricing_changes by blast
    next
      case 3 then show ?thesis unfolding set_detect_location_changes by blast
    next
      case 4 then show ?thesis unfolding set_detect_promotion_changes by blast
    next
      case 5 then show ?thesis unfolding set_detect_business_changes by blast
    next
      case 6 then show ?thesis unfolding set_detect_page_changes by blast
    qed
  qed
  have 13: "length cs = length cs'"
    by (rule length_detect_changes [OF fwd bwd])
  show ?thesis
    by (intro conjI) (fact 1 2 3 4 5 6 7 8 9 10 11 12 13)+
qed

theorem detect_changes_mirror_witness:
  "company_id example_old = company_id example_new
   \<and> detect_changes ''t1'' example_old example_new = Inr example_forward_changes
   \<and> detect_changes ''t2'' example_new example_old = Inr example_backward_changes
   \<and> service_added ''fixo'' ''t1'' ''C'' \<in> set example_forward_changes
   \<and> service_removed ''fixo'' ''t2'' ''C'' \<in> set example_backward_changes
   \<and> length example_forward_changes = length example_backward_changes"
proof -
  have same: "company_id example_old = company_id example_new"
    by (simp add: example_company_id)
  note m = detect_changes_mirror [OF same example_forward example_backward,
      unfolded example_company_id]
  have a: "service_added ''fixo'' ''t1'' ''C'' \<in> set example_forward_changes"
    by (simp add: example_forward_changes_def)
  from m have "service_added ''fixo'' ''t1'' ''C'' \<in> set example_forward_changes
      \<longleftrightarrow> service_removed ''fixo'' ''t2'' ''C'' \<in> set example_backward_changes"
    by blast
  with a have b: "service_removed ''fixo'' ''t2'' ''C'' \<in> set example_backward_changes"
    by simp
  from m have c: "length example_forward_changes = length example_backward_changes"
    by blast
  show ?thesis
    using same example_forward example_backward a b c by simp
qed

text \<open>
  C8. The pricing comparison walks the union of the keys of both price dictionaries, each key
  once. A key only in \<open>new\<close> gives one \<open>price_changed\<close> of severity medium with only
  \<open>new_value\<close>; a key only in \<open>old\<close> gives one of severity medium with only \<open>old_value\<close>; a key
  in both with different values gives one of severity high with both values; a key in both
  with equal values gives nothing. Old \<open>{"basic": "10EUR"}\<close> against new \<open>{"basic": "12EUR"}\<close>
  (with the euro sign) gives exactly one \<open>price_changed\<close>, severity high.
\<close>

theorem detect_pricing_changes_per_key:
  "set (set_of_lists (dict_keys (pricing old)) (dict_keys (pricing new)))
     = set (dict_keys (pricing old)) \<union> set (dict_keys (pricing new))
   \<and> distinct (set_of_lists (dict_keys (pricing old)) (dict_keys (pricing new)))
   \<and> detect_pricing_changes old new ts
       = concat (map (pricing_changes_of_key old new ts)
           (set_of_lists (dict_keys (pricing old)) (dict_keys (pricing new))))
   \<and> (\<forall>key v. dict_get (pricing old) key = None \<and> dict_get (pricing new) key = Some v \<longrightarrow>
         (\<exists>c. pricing_changes_of_key old new ts key = [c]
              \<and> change_type c = ''price_changed'' \<and> severity c = ''medium''
              \<and> old_value c = None \<and> new_value c = Some v))
   \<and> (\<forall>key v. dict_get (pricing old) key = Some v \<and> dict_get (pricing new) key = None \<longrightarrow>
         (\<exists>c. pricing_changes_of_key old new ts key = [c]
              \<and> change_type c = ''price_changed'' \<and> severity c = ''medium''
              \<and> old_value c = Some v \<and> new_value c = None))
   \<and> (\<forall>key v w. dict_get (pricing old) key = Some v \<and> dict_get (pricing new) key = Some w
                 \<and> v \<noteq> w \<longrightarrow>
         (\<exists>c. pricing_changes_of_key old new ts key = [c]
              \<and> change_type c = ''price_changed'' \<and> severity c = ''high''
              \<and> old_value c = Some v \<and> new_value c = Some w))
   \<and> (\<forall>key v. dict_get (pricing old) key = Some v \<and> dict_get (pricing new) key = Some v \<longrightarrow>
         pricing_changes_of_key old new ts key = [])
   \<and> (pricing old = [(''basic'', ''10'' @ euro)] \<and> pricing new = [(''basic'', ''12'' @ euro)] \<longrightarrow>
         (\<exists>c. detect_pricing_changes old new ts = [c]
              \<and> change_type c = ''price_changed'' \<and> severity c = ''high''
              \<and> old_value c = Some (''10'' @ euro) \<and> new_value c = Some (''12'' @ euro)))"
  by (simp add: detect_pricing_changes_def pricing_changes_of_key_def Let_def
      price_new_def price_removed_def price_altered_def set_of_lists_def dict_keys_def
      dict_get_def)

theorem detect_pricing_changes_per_key_witness:
  "dict_get (pricing example_old) ''extra'' = None
   \<and> dict_get (pricing example_new) ''extra'' = Some ''7''
   \<and> (\<exists>c. pricing_changes_of_key example_old example_new ''t1'' ''extra'' = [c]
          \<and> change_type c = ''price_changed'' \<and> severity c = ''medium''
          \<and> old_value c = None \<and> new_value c = Some ''7'')
   \<and> dict_get (pricing example_old) ''legacy'' = Some ''5''
   \<and> dict_get (pricing example_new) ''legacy'' = None
   \<and> (\<exists>c. pricing_changes_of_key example_old example_new ''t1'' ''legacy'' = [c]
          \<and> change_type c = ''price_changed'' \<and> severity c = ''medium''
          \<and> old_value c = Some ''5'' \<and> new_value c = None)
   \<and> dict_get (pricing example_old) ''basic'' = Some (''10'' @ euro)
   \<and> dict_get (pricing example_new) ''basic'' = Some (''12'' @ euro)
   \<and> (\<exists>c. pricing_changes_of_key example_old example_new ''t1'' ''basic'' = [c]
          \<and> change_type c = ''price_changed'' \<and> severity c = ''high''
          \<and> old_value c = Some (''10'' @ euro) \<and> new_value c = Some (''12'' @ euro))
   \<and> dict_get (pricing example_old) ''pro'' = Some ''30''
   \<and> dict_get (pricing example_new) ''pro'' = Some ''30''
   \<and> pricing_changes_of_key example_old example_new ''t1'' ''pro'' = []"
proof -
  note t = detect_pricing_changes_per_key [of example_old example_new "''t1''"]
  have g: "dict_get (pricing example_old) ''extra'' = None"
      "dict_get (pricing example_new) ''extra'' = Some ''7''"
      "dict_get (pricing example_old) ''legacy'' = Some ''5''"
      "dict_get (pricing example_new) ''legacy'' = None"
      "dict_get (pricing example_old) ''basic'' = Some (''10'' @ euro)"
      "dict_get (pricing example_new) ''basic'' = Some (''12'' @ euro)"
      "dict_get (pricing example_old) ''pro'' = Some ''30''"
      "dict_get (pricing example_new) ''pro'' = Some ''30''"
    by (simp_all add: example_old_def example_new_def dict_get_def)
  have 1: "\<exists>c. pricing_changes_of_key example_old example_new ''t1'' ''extra'' = [c]
          \<and> change_type c = ''price_changed'' \<and> severity c = ''medium''
          \<and> old_value c = None \<and> new_value c = Some ''7''"
    using t g(1,2) by blast
  have 2: "\<exists>c. pricing_changes_of_key example_old example_new ''t1'' ''legacy'' = [c]
          \<and> change_type c = ''price_changed'' \<and> severity c = ''medium''
          \<and> old_value c = Some ''5'' \<and> new_value c = None"
    using t g(3,4) by blast
  have ne: "''10'' @ euro \<noteq> ''12'' @ euro"
    by simp
  have 3: "\<exists>c. pricing_changes_of_key example_old example_new ''t1'' ''basic'' = [c]
          \<and> change_type c = ''price_changed'' \<and> severity c = ''high''
          \<and> old_value c = Some (''10'' @ euro) \<and> new_value c = Some (''12'' @ euro)"
    using t g(5,6) ne by blast
  have 4: "pricing_changes_of_key example_old example_new ''t1'' ''pro'' = []"
    using t g(7,8) by blast
  show ?thesis
    by (intro conjI) (fact g 1 2 3 4)+
qed

text \<open>
  C9. Absence is not a change for the hash-based categories. A \<open>business_model_change\<close> is
  emitted exactly when both snapshots have a non-empty \<open>about_text_hash\<close> and the two differ
  (and then only one); a \<open>website_content_change\<close> for a page is emitted exactly when the page
  has a non-empty hash in both snapshots and the two differ.
\<close>

theorem hash_changes_only_on_transition:
  assumes "detect_changes now old new = Inr cs"
  shows "((\<exists>c \<in> set cs. change_type c = ''business_model_change'')
           \<longleftrightarrow> (\<exists>oh nh. dict_get (business_info old) ''about_text_hash'' = Some oh
                  \<and> dict_get (business_info new) ''about_text_hash'' = Some nh
                  \<and> oh \<noteq> [] \<and> nh \<noteq> [] \<and> oh \<noteq> nh))
       \<and> length (filter (\<lambda>c. change_type c = ''business_model_change'') cs) \<le> 1
       \<and> (\<forall>page. (\<exists>g h. website_content_change (company_id new) now page g h \<in> set cs)
           \<longleftrightarrow> (\<exists>oh nh. dict_get (raw_pages old) page = Some oh
                  \<and> dict_get (raw_pages new) page = Some nh
                  \<and> oh \<noteq> [] \<and> nh \<noteq> [] \<and> oh \<noteq> nh))"
proof -
  have cs: "cs = detect_service_changes old new now @ detect_pricing_changes old new now
             @ detect_location_changes old new now @ detect_promotion_changes old new now
             @ detect_business_changes old new now @ detect_page_changes old new now"
    using assms by (auto simp: detect_changes_def split: if_splits)
  have "(\<exists>c \<in> set cs. change_type c = ''business_model_change'')
        \<longleftrightarrow> detect_business_changes old new now \<noteq> []"
  proof
    assume "\<exists>c \<in> set cs. change_type c = ''business_model_change''"
    then obtain c where c: "c \<in> set cs" "change_type c = ''business_model_change''"
      by blast
    then have "c \<in> set (detect_business_changes old new now)"
      using business_typed_in [OF assms] by simp
    then show "detect_business_changes old new now \<noteq> []"
      by auto
  next
    assume "detect_business_changes old new now \<noteq> []"
    then obtain c where c: "c \<in> set (detect_business_changes old new now)"
      by (cases "detect_business_changes old new now") auto
    then have "c \<in> set cs" "change_type c = ''business_model_change''"
      by (simp_all add: cs type_of_business_changes)
    then show "\<exists>c \<in> set cs. change_type c = ''business_model_change''"
      by blast
  qed
  also have "\<dots> \<longleftrightarrow> (\<exists>oh nh. dict_get (business_info old) ''about_text_hash'' = Some oh
                  \<and> dict_get (business_info new) ''about_text_hash'' = Some nh
                  \<and> oh \<noteq> [] \<and> nh \<noteq> [] \<and> oh \<noteq> nh)"
    by (auto simp: detect_business_changes_def Let_def dict_get_default_def dict_get_def
        split: option.splits)
  finally have 1: "(\<exists>c \<in> set cs. change_type c = ''business_model_change'')
           \<longleftrightarrow> (\<exists>oh nh. dict_get (business_info old) ''about_text_hash'' = Some oh
                  \<and> dict_get (business_info new) ''about_text_hash'' = Some nh
                  \<and> oh \<noteq> [] \<and> nh \<noteq> [] \<and> oh \<noteq> nh)" .
  have other:
    "filter (\<lambda>c. change_type c = ''business_model_change'') (detect_service_changes old new now) = []"
    "filter (\<lambda>c. change_type c = ''business_model_change'') (detect_pricing_changes old new now) = []"
    "filter (\<lambda>c. change_type c = ''business_model_change'') (detect_location_changes old new now) = []"
    "filter (\<lambda>c. change_type c = ''business_model_change'') (detect_promotion_changes old new now) = []"
    "filter (\<lambda>c. change_type c = ''business_model_change'') (detect_page_changes old new now) = []"
    by (auto simp: filter_empty_conv dest: type_of_changes)
  have "filter (\<lambda>c. change_type c = ''business_model_change'') cs
        = filter (\<lambda>c. change_type c = ''business_model_change'')
            (detect_business_changes old new now)"
    unfolding cs filter_append by (simp add: other)
  then have 2: "length (filter (\<lambda>c. change_type c = ''business_model_change'') cs) \<le> 1"
    by (simp add: detect_business_changes_def Let_def)
  have 3: "\<forall>page. (\<exists>g h. website_content_change (company_id new) now page g h \<in> set cs)
           \<longleftrightarrow> (\<exists>oh nh. dict_get (raw_pages old) page = Some oh
                  \<and> dict_get (raw_pages new) page = Some nh
                  \<and> oh \<noteq> [] \<and> nh \<noteq> [] \<and> oh \<noteq> nh)"
    by (simp add: page_typed_in [OF assms] change_type_simps website_content_change_own
        dict_get_def) blast
  show ?thesis
    by (intro conjI) (fact 1 2 3)+
qed

theorem hash_changes_only_on_transition_witness:
  "detect_changes ''t1'' example_old example_new = Inr example_forward_changes
   \<and> (\<exists>c \<in> set example_forward_changes. change_type c = ''business_model_change'')
   \<and> (\<exists>g h. website_content_change ''fixo'' ''t1'' ''home'' g h \<in> set example_forward_changes)
   \<and> dict_get (raw_pages example_old) ''about'' = Some []
   \<and> \<not> (\<exists>g h. website_content_change ''fixo'' ''t1'' ''about'' g h
              \<in> set example_forward_changes)"
proof -
  note h = hash_changes_only_on_transition [OF example_forward, unfolded example_company_id]
  have 1: "dict_get (business_info example_old) ''about_text_hash'' = Some ''h1''"
       "dict_get (business_info example_new) ''about_text_hash'' = Some ''h2''"
       "dict_get (raw_pages example_old) ''about'' = Some []"
       "dict_get (raw_pages example_new) ''about'' = Some ''ccc''"
       "dict_get (raw_pages example_old) ''home'' = Some ''aaa''"
       "dict_get (raw_pages example_new) ''home'' = Some ''bbb''"
    by (simp_all add: example_old_def example_new_def dict_get_def)
  from h have "(\<exists>c \<in> set example_forward_changes. change_type c = ''business_model_change'')
      \<longleftrightarrow> (\<exists>oh nh. dict_get (business_info example_old) ''about_text_hash'' = Some oh
                  \<and> dict_get (business_info example_new) ''about_text_hash'' = Some nh
                  \<and> oh \<noteq> [] \<and> nh \<noteq> [] \<and> oh \<noteq> nh)"
    by (rule conjunct1)
  then have 2: "\<exists>c \<in> set example_forward_changes. change_type c = ''business_model_change''"
    by (simp add: 1)
  from h have pages: "(\<exists>g h. website_content_change ''fixo'' ''t1'' page g h
                          \<in> set example_forward_changes)
      \<longleftrightarrow> (\<exists>oh nh. dict_get (raw_pages example_old) page = Some oh
                  \<and> dict_get (raw_pages example_new) page = Some nh
                  \<and> oh \<noteq> [] \<and> nh \<noteq> [] \<and> oh \<noteq> nh)" for page
    by blast
  have 3: "\<exists>g h. website_content_change ''fixo'' ''t1'' ''home'' g h
                 \<in> set example_forward_changes"
    by (simp add: pages 1)
  have 4: "\<not> (\<exists>g h. website_content_change ''fixo'' ''t1'' ''about'' g h
                 \<in> set example_forward_changes)"
    by (simp add: pages 1)
  show ?thesis
    using example_forward 1 2 3 4 by simp
qed

section \<open>Properties of the snapshot storage\<close>

lemma digit_simps:
  "digit 0 = CHR ''0''" "digit (Suc 0) = CHR ''1''" "digit 1 = CHR ''1''" "digit 2 = CHR ''2''"
  "digit 3 = CHR ''3''" "digit 4 = CHR ''4''" "digit 5 = CHR ''5''" "digit 6 = CHR ''6''"
  "digit 7 = CHR ''7''" "digit 8 = CHR ''8''" "digit 9 = CHR ''9''"
  by (simp_all add: digit_def char_of_def bit_iff_odd)

lemma digit_less: "x < 10 \<Longrightarrow> y < 10 \<Longrightarrow> digit x < digit y \<longleftrightarrow> x < y"
  by (simp add: digit_def less_char_def)

lemma digit_eq:
  assumes "x < 10" "y < 10"
  shows "digit x = digit y \<longleftrightarrow> x = y"
proof
  assume "digit x = digit y"
  then have "(of_char (digit x) :: nat) = of_char (digit y)"
    by simp
  then show "x = y"
    using assms by (simp add: digit_def)
qed simp

lemma base_less:
  fixes p q p' q' k :: nat
  assumes "q < k" "q' < k"
  shows "k * p + q < k * p' + q' \<longleftrightarrow> p < p' \<or> (p = p' \<and> q < q')"
proof (cases p p' rule: linorder_cases)
  case less
  then have "k * (p + 1) \<le> k * p'"
    by (intro mult_le_mono2) simp
  then show ?thesis
    using less assms by simp
next
  case equal
  then show ?thesis by simp
next
  case greater
  then have "k * (p' + 1) \<le> k * p"
    by (intro mult_le_mono2) simp
  then show ?thesis
    using greater assms by simp
qed

lemma base_eq:
  fixes p q p' q' k :: nat
  assumes "q < k" "q' < k"
  shows "k * p + q = k * p' + q' \<longleftrightarrow> p = p' \<and> q = q'"
  using base_less [OF assms, of p p'] base_less [OF assms(2,1), of p' p]
  by (metis less_irrefl nat_neq_iff)

lemma split_less:
  fixes a b k :: nat
  assumes "0 < k"
  shows "a < b \<longleftrightarrow> a div k < b div k \<or> (a div k = b div k \<and> a mod k < b mod k)"
  using base_less [of "a mod k" k "b mod k" "a div k" "b div k"] assms by simp

lemma split_eq:
  fixes a b k :: nat
  assumes "0 < k"
  shows "a = b \<longleftrightarrow> a div k = b div k \<and> a mod k = b mod k"
  using base_eq [of "a mod k" k "b mod k" "a div k" "b div k"] assms by simp

lemma zero_pad2_less:
  assumes "a < 100" "b < 100"
  shows "zero_pad2 a @ r < zero_pad2 b @ r' \<longleftrightarrow> a < b \<or> (a = b \<and> r < r')"
proof -
  have m: "a div 10 mod 10 = a div 10" "b div 10 mod 10 = b div 10"
    using assms by simp_all
  have d: "a div 10 < 10" "b div 10 < 10" "a mod 10 < 10" "b mod 10 < 10"
    using assms by simp_all
  have "zero_pad2 a @ r < zero_pad2 b @ r'
        \<longleftrightarrow> a div 10 < b div 10
            \<or> (a div 10 = b div 10
                \<and> (a mod 10 < b mod 10 \<or> (a mod 10 = b mod 10 \<and> r < r')))"
    by (simp add: zero_pad2_def m digit_less [OF d(1,2)] digit_less [OF d(3,4)]
        digit_eq [OF d(1,2)] digit_eq [OF d(3,4)])
  also have "\<dots> \<longleftrightarrow> a < b \<or> (a = b \<and> r < r')"
    unfolding split_less [of 10 a b, simplified] split_eq [of 10 a b, simplified] by blast
  finally show ?thesis .
qed

lemma valid_bounds:
  assumes "valid_datetime t"
  shows "year t < 10000" "month t < 100" "day t < 100" "hour t < 100" "minute t < 100" "second t < 100"
  using assms unfolding valid_datetime_def by auto

lemma pad2_fields:
  assumes "a < 100" "b < 100" and "r < r' \<longleftrightarrow> xs < ys"
  shows "zero_pad2 a @ r < zero_pad2 b @ r' \<longleftrightarrow> a # xs < b # ys"
  using zero_pad2_less [OF assms(1,2), of r r'] assms(3) by simp

lemma sep_fields:
  assumes "r < r' \<longleftrightarrow> xs < ys"
  shows "''_'' @ r < ''_'' @ r' \<longleftrightarrow> xs < ys"
  using assms by simp

lemma last_fields: "(r :: string) < r \<longleftrightarrow> ([] :: nat list) < []"
  by simp

lemma mod100_div10: "(m::nat) mod 100 div 10 = m div 10 mod 10"
proof -
  have "m mod 100 = 10 * (m div 10 mod 10) + m mod 10"
    using mod_mult2_eq [of m 10 10] by simp
  then show ?thesis
    by simp
qed

lemma mod100_mod10: "(m::nat) mod 100 mod 10 = m mod 10"
  by (simp add: mod_mod_cancel)

lemma div100_div10: "(n::nat) div 100 div 10 = n div 1000"
  by (simp add: div_mult2_eq [symmetric])

lemma zero_pad4_split: "zero_pad4 n = zero_pad2 (n div 100 mod 100) @ zero_pad2 (n mod 100)"
  by (simp add: zero_pad4_def zero_pad2_def mod100_div10 mod100_mod10 div100_div10)

lemma zero_pad4_less:
  assumes "a < 10000" "b < 10000"
  shows "zero_pad4 a @ r < zero_pad4 b @ r' \<longleftrightarrow> a < b \<or> (a = b \<and> r < r')"
proof -
  have m: "a div 100 mod 100 = a div 100" "b div 100 mod 100 = b div 100"
    using assms by simp_all
  have c: "a div 100 < 100" "b div 100 < 100" "a mod 100 < 100" "b mod 100 < 100"
    using assms by simp_all
  have "zero_pad4 a @ r < zero_pad4 b @ r'
        \<longleftrightarrow> a div 100 < b div 100
            \<or> (a div 100 = b div 100
                \<and> (a mod 100 < b mod 100 \<or> (a mod 100 = b mod 100 \<and> r < r')))"
    unfolding zero_pad4_split m append_assoc
    by (simp only: zero_pad2_less [OF c(1,2)] zero_pad2_less [OF c(3,4)])
  also have "\<dots> \<longleftrightarrow> a < b \<or> (a = b \<and> r < r')"
    unfolding split_less [of 100 a b, simplified] split_eq [of 100 a b, simplified] by blast
  finally show ?thesis .
qed

lemma pad4_fields:
  assumes "a < 10000" "b < 10000" and "r < r' \<longleftrightarrow> xs < ys"
  shows "zero_pad4 a @ r < zero_pad4 b @ r' \<longleftrightarrow> a # xs < b # ys"
  using zero_pad4_less [OF assms(1,2), of r r'] assms(3) by simp

lemma strftime_less:
  assumes "valid_datetime t" "valid_datetime t'"
  shows "strftime t @ r < strftime t' @ r
         \<longleftrightarrow> datetime_fields t < datetime_fields t'"
  unfolding strftime_def datetime_fields_def append_assoc
  by (intro pad4_fields pad2_fields sep_fields last_fields valid_bounds assms)

lemma same_prefix_less: "(p @ xs < p @ ys) \<longleftrightarrow> (xs < (ys :: string))"
  by (induction p) simp_all

lemma snapshot_filename_less:
  assumes "valid_datetime t" "valid_datetime t'"
  shows "snapshot_filename cid (strftime t) < snapshot_filename cid (strftime t')
         \<longleftrightarrow> datetime_fields t < datetime_fields t'"
  using strftime_less [OF assms, of "''.json''"]
  by (simp add: snapshot_filename_def same_prefix_less)

lemma entries_company_dir [simp]: "entries (company_dir cid fs) c = entries fs c"
  by (auto simp: entries_def company_dir_def split: option.splits)

lemma entries_upd [simp]: "entries (fs(c \<mapsto> d)) c' = (if c' = c then d else entries fs c')"
  by (simp add: entries_def)

lemma fold_unlink:
  "fold (\<lambda>f d. unlink (fst f) d) dels d = filter (\<lambda>e. fst e \<notin> fst ` set dels) d"
proof (induction dels arbitrary: d)
  case Nil
  then show ?case by simp
next
  case (Cons x dels)
  have "filter (\<lambda>e. fst e \<notin> fst ` set dels) (unlink (fst x) d)
        = filter (\<lambda>e. fst e \<notin> fst ` set (x # dels)) d"
    by (induction d) (auto simp: unlink_def AList.delete_eq)
  with Cons show ?case by simp
qed

lemma snapshot_files_filter:
  "snapshot_files cid (filter P d) = filter P (snapshot_files cid d)"
proof -
  let ?g = "\<lambda>e. glob_match cid (fst e)"
  have "filter ?g (filter P d) = filter P (filter ?g d)"
    by (induction d) auto
  then have "snapshot_files cid (filter P d) = rev (sort_key fst (filter P (filter ?g d)))"
    by (simp only: snapshot_files_def)
  also have "\<dots> = rev (filter P (sort_key fst (filter ?g d)))"
    by (simp only: filter_sort)
  also have "\<dots> = filter P (rev (sort_key fst (filter ?g d)))"
    by (simp only: rev_filter)
  finally show ?thesis
    by (simp only: snapshot_files_def)
qed

lemma set_snapshot_files:
  "set (snapshot_files cid d) = {e \<in> set d. glob_match cid (fst e)}"
  by (simp add: snapshot_files_def)

lemma distinct_map_sort_key:
  "distinct (map f (sort_key f xs)) \<longleftrightarrow> distinct (map f xs)"
  by (induction xs) (simp_all add: distinct_insort_key)

lemma distinct_snapshot_files:
  assumes "distinct (map fst d)"
  shows "distinct (map fst (snapshot_files cid d))"
proof -
  have "distinct (map fst (filter (\<lambda>e. glob_match cid (fst e)) d))"
    using assms by (rule distinct_map_filter)
  then show ?thesis
    by (simp add: snapshot_files_def rev_map [symmetric] distinct_map_sort_key)
qed

lemma filter_not_in_drop:
  assumes "distinct (map f xs)"
  shows "filter (\<lambda>e. f e \<notin> f ` set (drop n xs)) xs = take n xs"
  using assms
proof (induction xs arbitrary: n)
  case Nil
  then show ?case by simp
next
  case (Cons x xs)
  show ?case
  proof (cases n)
    case 0
    then show ?thesis
      by (simp add: filter_empty_conv)
  next
    case (Suc m)
    have "f x \<notin> f ` set (drop m xs)"
      using Cons.prems by (auto dest: in_set_dropD)
    then show ?thesis
      using Suc Cons by simp
  qed
qed

lemma snapshot_files_cleanup:
  assumes "distinct (map fst (entries fs cid))" "0 \<le> N"
  shows "snapshot_files cid (entries (cleanup_old_snapshots N cid fs) cid)
         = take (nat N) (snapshot_files cid (entries fs cid))"
proof (cases "int (length (snapshot_files cid (entries fs cid))) > N")
  case True
  have "distinct (map fst (snapshot_files cid (entries fs cid)))"
    by (rule distinct_snapshot_files [OF assms(1)])
  then show ?thesis
    using True assms(2)
    by (simp add: cleanup_old_snapshots_def Let_def fold_unlink snapshot_files_filter
        slice_from_def filter_not_in_drop)
next
  case False
  then show ?thesis
    by (simp add: cleanup_old_snapshots_def Let_def)
qed

lemma entries_cleanup_other:
  "c \<noteq> cid \<Longrightarrow> entries (cleanup_old_snapshots N cid fs) c = entries fs c"
  by (simp add: cleanup_old_snapshots_def Let_def)

lemma entries_cleanup:
  "\<exists>K. entries (cleanup_old_snapshots N cid fs) cid
        = filter (\<lambda>e. fst e \<notin> K) (entries fs cid)"
proof (cases "int (length (snapshot_files cid (entries fs cid))) > N")
  case True
  then have "entries (cleanup_old_snapshots N cid fs) cid
             = filter (\<lambda>e. fst e \<notin> fst ` set (slice_from N (snapshot_files cid (entries fs cid))))
                 (entries fs cid)"
    by (simp add: cleanup_old_snapshots_def Let_def fold_unlink)
  then show ?thesis by blast
next
  case False
  then have "entries (cleanup_old_snapshots N cid fs) cid
             = filter (\<lambda>e. fst e \<notin> {}) (entries fs cid)"
    by (simp add: cleanup_old_snapshots_def Let_def)
  then show ?thesis by blast
qed

lemma sorted_map_last:
  assumes "sorted (map f ys)" "y \<in> set ys"
  shows "f y \<le> f (last ys)"
proof -
  from assms(2) obtain i where i: "i < length ys" "ys ! i = y"
    by (auto simp: in_set_conv_nth)
  then have ne: "ys \<noteq> []" by auto
  have "map f ys ! i \<le> map f ys ! (length ys - 1)"
    using assms(1) i(1) by (intro sorted_nth_mono) auto
  then show ?thesis
    using i ne by (simp add: last_conv_nth)
qed

lemma snapshot_files_head:
  assumes "filter (\<lambda>e. glob_match cid (fst e)) d \<noteq> []"
  shows "\<exists>e rest. snapshot_files cid d = e # rest \<and> e \<in> set d \<and> glob_match cid (fst e)
           \<and> (\<forall>y \<in> set d. glob_match cid (fst y) \<longrightarrow> fst y \<le> fst e)"
proof -
  let ?xs = "filter (\<lambda>e. glob_match cid (fst e)) d"
  let ?ys = "sort_key fst ?xs"
  have ne: "?ys \<noteq> []"
    using assms by (metis length_sort length_0_conv)
  then have split: "snapshot_files cid d = last ?ys # rev (butlast ?ys)"
    by (simp add: snapshot_files_def)
  have mem: "last ?ys \<in> set ?xs"
    using ne by (metis last_in_set set_sort)
  have "\<forall>y \<in> set ?xs. fst y \<le> fst (last ?ys)"
    using sorted_map_last [of fst ?ys] by simp
  with split mem show ?thesis
    by auto
qed

lemma datetime_fields_inj: "datetime_fields t = datetime_fields t' \<Longrightarrow> t = (t' :: datetime)"
  by (cases t; cases t') (simp add: datetime_fields_def)

lemma snapshot_filename_le:
  assumes "valid_datetime t" "valid_datetime t'"
  shows "snapshot_filename cid (strftime t) \<le> snapshot_filename cid (strftime t')
         \<longleftrightarrow> datetime_fields t \<le> datetime_fields t'"
  using snapshot_filename_less [OF assms(2,1), of cid]
  by (simp add: not_less [symmetric])

lemma save_snapshot_other:
  "c \<noteq> company_id s \<Longrightarrow> entries (snd (save_snapshot N now s fs)) c = entries fs c"
  by (simp add: save_snapshot_def Let_def entries_cleanup_other)

lemma save_snapshot_path:
  "fst (save_snapshot N now s fs)
     = company_id s @ ''/'' @ snapshot_filename (company_id s) (strftime now)"
  by (simp add: save_snapshot_def Let_def)

lemma save_snapshot_as_cleanup:
  "snd (save_snapshot N now s fs)
     = cleanup_old_snapshots N (company_id s)
         ((company_dir (company_id s) fs)(company_id s \<mapsto>
            AList.update (snapshot_filename (company_id s) (strftime now)) s
              (entries fs (company_id s))))"
  by (simp add: save_snapshot_def Let_def)

lemma save_snapshot_entries:
  "\<exists>K. entries (snd (save_snapshot N now s fs)) (company_id s)
        = filter (\<lambda>e. fst e \<notin> K)
            (AList.update (snapshot_filename (company_id s) (strftime now)) s
               (entries fs (company_id s)))"
  unfolding save_snapshot_as_cleanup
  using entries_cleanup [of N "company_id s"
      "(company_dir (company_id s) fs)(company_id s \<mapsto>
            AList.update (snapshot_filename (company_id s) (strftime now)) s
              (entries fs (company_id s)))"]
  by simp

lemma length_files_update:
  "length (snapshot_files cid (AList.update name s d)) \<le> Suc (length (snapshot_files cid d))"
proof -
  have "length (filter (\<lambda>e. glob_match cid (fst e)) (AList.update name s d))
        \<le> Suc (length (filter (\<lambda>e. glob_match cid (fst e)) d))"
    by (induction d) auto
  then show ?thesis
    by (simp add: snapshot_files_def)
qed

lemma save_snapshot_room:
  assumes "int (length (snapshot_files (company_id s) (entries fs (company_id s)))) < N"
  shows "entries (snd (save_snapshot N now s fs)) (company_id s)
         = AList.update (snapshot_filename (company_id s) (strftime now)) s
             (entries fs (company_id s))"
proof -
  have "int (length (snapshot_files (company_id s)
          (AList.update (snapshot_filename (company_id s) (strftime now)) s
             (entries fs (company_id s))))) \<le> N"
    using assms length_files_update [of "company_id s"
        "snapshot_filename (company_id s) (strftime now)" s "entries fs (company_id s)"]
    by linarith
  then show ?thesis
    unfolding save_snapshot_as_cleanup
    by (simp add: cleanup_old_snapshots_def Let_def)
qed

lemma save_snapshot_files:
  assumes "distinct (map fst (entries fs (company_id s)))" "0 \<le> N"
  shows "snapshot_files (company_id s) (entries (snd (save_snapshot N now s fs)) (company_id s))
         = take (nat N) (snapshot_files (company_id s)
             (AList.update (snapshot_filename (company_id s) (strftime now)) s
                (entries fs (company_id s))))"
  unfolding save_snapshot_as_cleanup
  using assms by (subst snapshot_files_cleanup) (simp_all add: distinct_update)

lemma save_snapshot_distinct:
  assumes "distinct (map fst (entries fs (company_id s)))"
  shows "distinct (map fst (entries (snd (save_snapshot N now s fs)) (company_id s)))"
proof -
  obtain K where "entries (snd (save_snapshot N now s fs)) (company_id s)
        = filter (\<lambda>e. fst e \<notin> K)
            (AList.update (snapshot_filename (company_id s) (strftime now)) s
               (entries fs (company_id s)))"
    using save_snapshot_entries by blast
  then show ?thesis
    using assms by (simp add: distinct_map_filter distinct_update)
qed

lemma map_of_filter_keys:
  "map_of (filter (\<lambda>e. fst e \<notin> K) d) k = (if k \<in> K then None else map_of d k)"
  by (induction d) auto

lemma update_fresh:
  "name \<notin> fst ` set d \<Longrightarrow> AList.update name s d = d @ [(name, s)]"
  by (induction d) auto

lemma glob_match_snapshot_filename [simp]: "glob_match cid (snapshot_filename cid stamp)"
  by (simp add: glob_match_def snapshot_filename_def)

lemma descending_snapshot_files:
  assumes "distinct (map fst d)"
  shows "sorted_wrt (\<lambda>a b. a > b) (map fst (snapshot_files cid d))"
proof -
  let ?ys = "sort_key fst (filter (\<lambda>e. glob_match cid (fst e)) d)"
  have "distinct (map fst ?ys)"
    using distinct_snapshot_files [OF assms, of cid]
    by (simp add: snapshot_files_def rev_map [symmetric])
  then have "sorted_wrt (<) (map fst ?ys)"
    by (simp add: strict_sorted_iff)
  then show ?thesis
    by (simp add: snapshot_files_def rev_map [symmetric] sorted_wrt_rev)
qed

lemma example_stamps:
  "strftime example_t1 = ''20250101_090000''"
  "strftime example_t2 = ''20250102_093005''"
  by (simp_all add: example_t1_def example_t2_def strftime_def zero_pad2_def zero_pad4_def
      digit_simps)

lemma example_names:
  "snapshot_filename ''fixo'' (strftime example_t1) = ''fixo_20250101_090000.json''"
  "snapshot_filename ''fixo'' (strftime example_t2) = ''fixo_20250102_093005.json''"
  by (simp_all add: example_stamps snapshot_filename_def)

lemma example_valid: "valid_datetime example_t1" "valid_datetime example_t2"
  by (simp_all add: example_t1_def example_t2_def valid_datetime_def)

lemma entries_empty [simp]: "entries Map.empty c = []"
  by (simp add: entries_def)

lemma snapshot_files_Nil [simp]: "snapshot_files cid [] = []"
  by (simp add: snapshot_files_def)

lemma example_fs1_entries:
  "entries example_fs1 ''fixo'' = [(''fixo_20250101_090000.json'', example_old)]"
  unfolding example_fs1_def
  using save_snapshot_room [where s = example_old and fs = Map.empty and N = 90
      and now = example_t1]
  by (simp add: example_company_id example_names)

lemma example_fs2_entries:
  "entries example_fs2 ''fixo'' = [(''fixo_20250102_093005.json'', example_new)]"
  unfolding example_fs2_def
  using save_snapshot_room [where s = example_new and fs = Map.empty and N = 90
      and now = example_t2]
  by (simp add: example_company_id example_names)

lemma length_snapshot_files_le: "length (snapshot_files cid d) \<le> length d"
  by (simp add: snapshot_files_def)

lemma example_fs_entries:
  "entries example_fs ''fixo''
     = [(''fixo_20250102_093005.json'', example_new),
        (''fixo_20250101_090000.json'', example_old)]"
proof -
  have "int (length (snapshot_files ''fixo'' (entries example_fs2 ''fixo''))) < 90"
    using length_snapshot_files_le [of "''fixo''" "entries example_fs2 ''fixo''"]
    by (simp add: example_fs2_entries)
  then show ?thesis
    unfolding example_fs_def
    using save_snapshot_room [where s = example_old and fs = example_fs2 and N = 90
        and now = example_t1]
    by (simp add: example_company_id example_names example_fs2_entries)
qed

lemma example_fs_other: "entries example_fs ''webel'' = []"
  by (simp add: example_fs_def example_fs2_def save_snapshot_other example_company_id)

lemma save_all_append: "save_all N (xs @ ys) fs = save_all N ys (save_all N xs fs)"
  by (induction N xs fs rule: save_all.induct) simp_all

lemma insort_key_snoc:
  "f a < f x \<Longrightarrow> insort_key f a (ys @ [x]) = insort_key f a ys @ [x]"
  by (induction ys) auto

lemma sort_key_snoc_greatest:
  "\<forall>y \<in> set xs. f y < f x \<Longrightarrow> sort_key f (xs @ [x]) = sort_key f xs @ [x]"
  by (induction xs) (simp_all add: insort_key_snoc)

lemma files_update_newest:
  assumes "distinct (map fst d)"
    and "\<forall>e \<in> set (snapshot_files cid d). fst e < snapshot_filename cid stamp"
  shows "snapshot_files cid (AList.update (snapshot_filename cid stamp) s d)
         = (snapshot_filename cid stamp, s) # snapshot_files cid d"
proof -
  let ?name = "snapshot_filename cid stamp"
  let ?g = "\<lambda>e. glob_match cid (fst e)"
  have fresh: "?name \<notin> fst ` set d"
  proof
    assume "?name \<in> fst ` set d"
    then obtain e where "e \<in> set d" "fst e = ?name" by auto
    then have "e \<in> set (snapshot_files cid d)"
      by (simp add: set_snapshot_files)
    then show False
      using assms(2) \<open>fst e = ?name\<close> by auto
  qed
  have "\<forall>y \<in> set (filter ?g d). fst y < fst (?name, s)"
    using assms(2) by (simp add: set_snapshot_files)
  then have "sort_key fst (filter ?g d @ [(?name, s)]) = sort_key fst (filter ?g d) @ [(?name, s)]"
    by (rule sort_key_snoc_greatest)
  then show ?thesis
    by (simp add: update_fresh [OF fresh] snapshot_files_def)
qed

lemma save_all_increasing:
  assumes "distinct (map fst (entries fs cid))"
    and "\<forall>(t, s) \<in> set saves. valid_datetime t \<and> company_id s = cid"
    and "sorted_wrt (\<lambda>a b. datetime_fields a < datetime_fields b) (map fst saves)"
    and "\<forall>e \<in> set (snapshot_files cid (entries fs cid)). \<forall>(t, s) \<in> set saves.
           fst e < snapshot_filename cid (strftime t)"
    and "int (length (snapshot_files cid (entries fs cid)) + length saves) \<le> N"
  shows "snapshot_files cid (entries (save_all N saves fs) cid)
           = rev (files_of_saves cid saves) @ snapshot_files cid (entries fs cid)
         \<and> distinct (map fst (entries (save_all N saves fs) cid))"
  using assms
proof (induction saves arbitrary: fs)
  case Nil
  then show ?case by (simp add: files_of_saves_def)
next
  case (Cons a saves)
  obtain t s where a: "a = (t, s)" by (cases a)
  let ?name = "snapshot_filename cid (strftime t)"
  let ?fs' = "snd (save_snapshot N t s fs)"
  have ts: "valid_datetime t" "company_id s = cid"
    using Cons.prems(2) a by auto
  have room: "int (length (snapshot_files cid (entries fs cid))) < N"
    using Cons.prems(5) by simp
  have ent: "entries ?fs' cid = AList.update ?name s (entries fs cid)"
    using save_snapshot_room [where s = s and fs = fs and N = N and now = t] room ts(2)
    by simp
  have older: "\<forall>e \<in> set (snapshot_files cid (entries fs cid)). fst e < ?name"
    using Cons.prems(4) a by auto
  have files: "snapshot_files cid (entries ?fs' cid)
               = (?name, s) # snapshot_files cid (entries fs cid)"
    unfolding ent by (rule files_update_newest [OF Cons.prems(1) older])
  have d': "distinct (map fst (entries ?fs' cid))"
    unfolding ent using Cons.prems(1) by (simp add: distinct_update)
  have v': "\<forall>(t, s) \<in> set saves. valid_datetime t \<and> company_id s = cid"
    using Cons.prems(2) by simp
  have s': "sorted_wrt (\<lambda>a b. datetime_fields a < datetime_fields b) (map fst saves)"
    using Cons.prems(3) by simp
  have o': "\<forall>e \<in> set (snapshot_files cid (entries ?fs' cid)). \<forall>(t', s') \<in> set saves.
           fst e < snapshot_filename cid (strftime t')"
  proof (intro ballI)
    fix e x assume e: "e \<in> set (snapshot_files cid (entries ?fs' cid))" and x: "x \<in> set saves"
    obtain t' s' where x': "x = (t', s')" by (cases x)
    have vt': "valid_datetime t'"
      using v' x x' by auto
    have "datetime_fields t < datetime_fields t'"
      using Cons.prems(3) a x x' by force
    then have new: "?name < snapshot_filename cid (strftime t')"
      by (simp add: snapshot_filename_less [OF ts(1) vt'])
    have "fst e < snapshot_filename cid (strftime t')"
    proof (cases "e = (?name, s)")
      case True
      then show ?thesis using new by simp
    next
      case False
      then have "e \<in> set (snapshot_files cid (entries fs cid))"
        using e files by simp
      then show ?thesis
        using Cons.prems(4) x x' by force
    qed
    then show "case x of (t', s') \<Rightarrow> fst e < snapshot_filename cid (strftime t')"
      by (simp add: x')
  qed
  have r': "int (length (snapshot_files cid (entries ?fs' cid)) + length saves) \<le> N"
    using Cons.prems(5) files by simp
  from Cons.IH [OF d' v' s' o' r']
  show ?case
    by (simp add: a files files_of_saves_def)
qed

lemma snd_get_all_snapshots:
  "snd (get_all_snapshots cid fs) = map snd (snapshot_files cid (entries fs cid))"
  by (simp add: get_all_snapshots_def Let_def)

lemma map_snd_files_of_saves: "map snd (files_of_saves cid saves) = map snd saves"
  by (induction saves) (auto simp: files_of_saves_def)

lemma company_dir_upd: "(company_dir cid fs)(cid \<mapsto> d) = fs(cid \<mapsto> d)"
  by (auto simp: company_dir_def split: option.splits)

lemma company_dir_present: "company_dir cid (fs(cid \<mapsto> d)) = fs(cid \<mapsto> d)"
  by (simp add: company_dir_def)

lemma cleanup_exact:
  "cleanup_old_snapshots N cid (fs(cid \<mapsto> d))
     = fs(cid \<mapsto> filter (\<lambda>e. fst e \<notin> fst ` set (pruned_files N cid d)) d)"
  by (simp add: cleanup_old_snapshots_def Let_def company_dir_present fold_unlink
      pruned_files_def)

lemma save_snapshot_exact:
  "snd (save_snapshot N now s fs)
     = fs(company_id s \<mapsto>
          filter (\<lambda>e. fst e \<notin> fst ` set (pruned_files N (company_id s)
                     (AList.update (snapshot_filename (company_id s) (strftime now)) s
                        (entries fs (company_id s)))))
            (AList.update (snapshot_filename (company_id s) (strftime now)) s
               (entries fs (company_id s))))"
  unfolding save_snapshot_as_cleanup company_dir_upd by (rule cleanup_exact)

lemma pruned_files_drop:
  "0 \<le> N \<Longrightarrow> pruned_files N cid d = drop (nat N) (snapshot_files cid d)"
  by (auto simp: pruned_files_def slice_from_def)

lemma map_insort_key: "map f (insort_key f x ys) = insort (f x) (map f ys)"
  by (induction ys) auto

lemma map_sort_key: "map f (sort_key f xs) = sort (map f xs)"
  by (induction xs) (simp_all add: map_insort_key)

lemma map_fst_snapshot_files:
  "map fst (snapshot_files cid d) = rev (sort (filter (glob_match cid) (map fst d)))"
proof -
  have "map fst (filter (\<lambda>e. glob_match cid (fst e)) d) = filter (glob_match cid) (map fst d)"
    by (induction d) auto
  then show ?thesis
    by (simp add: snapshot_files_def rev_map [symmetric] map_sort_key)
qed

lemma slice_from_map: "slice_from N (map f xs) = map f (slice_from N xs)"
  by (simp add: slice_from_def drop_map)

lemma pruned_names_cong:
  assumes "map fst d = map fst d'"
  shows "fst ` set (pruned_files N cid d) = fst ` set (pruned_files N cid d')"
proof -
  have names: "map fst (snapshot_files cid d) = map fst (snapshot_files cid d')"
    by (simp add: map_fst_snapshot_files assms)
  then have len: "length (snapshot_files cid d) = length (snapshot_files cid d')"
    by (metis length_map)
  have "map fst (pruned_files N cid d) = map fst (pruned_files N cid d')"
    using names len by (simp add: pruned_files_def slice_from_map [symmetric])
  then show ?thesis
    by (metis set_map)
qed

lemma update_filter_kept:
  "name \<notin> K \<Longrightarrow>
     AList.update name v (filter (\<lambda>e. fst e \<notin> K) d)
       = filter (\<lambda>e. fst e \<notin> K) (AList.update name v d)"
  by (induction d) auto

lemma filter_update_dropped:
  "name \<in> K \<Longrightarrow>
     filter (\<lambda>e. fst e \<notin> K) (AList.update name v d) = filter (\<lambda>e. fst e \<notin> K) d"
  by (induction d) auto

lemma snapshot_files_retained:
  assumes "distinct (map fst d)" "0 \<le> N"
  shows "snapshot_files cid (retained N cid d) = take (nat N) (snapshot_files cid d)"
  using assms
  by (simp add: retained_def pruned_files_drop snapshot_files_filter filter_not_in_drop
      distinct_snapshot_files)

lemma distinct_retained: "distinct (map fst d) \<Longrightarrow> distinct (map fst (retained N cid d))"
  by (simp add: retained_def distinct_map_filter)

lemma retained_idem:
  assumes "distinct (map fst d)" "0 \<le> N"
  shows "retained N cid (retained N cid d) = retained N cid d"
proof -
  have "pruned_files N cid (retained N cid d) = []"
    using assms by (simp add: pruned_files_drop snapshot_files_retained)
  then show ?thesis
    by (simp add: retained_def [of N cid "retained N cid d"])
qed

lemma sort_key_snoc_least:
  "\<forall>y \<in> set xs. f x < f y \<Longrightarrow> sort_key f (xs @ [x]) = x # sort_key f xs"
  by (induction xs) auto

lemma files_append_oldest:
  assumes "glob_match cid name" "\<forall>e \<in> set (snapshot_files cid d). name < fst e"
  shows "snapshot_files cid (d @ [(name, s)]) = snapshot_files cid d @ [(name, s)]"
proof -
  let ?g = "\<lambda>e. glob_match cid (fst e)"
  have "\<forall>y \<in> set (filter ?g d). fst (name, s) < fst y"
    using assms(2) by (simp add: set_snapshot_files)
  then have "sort_key fst (filter ?g d @ [(name, s)]) = (name, s) # sort_key fst (filter ?g d)"
    by (rule sort_key_snoc_least)
  then show ?thesis
    using assms(1) by (simp add: snapshot_files_def)
qed

lemma retained_update_twice:
  assumes names: "distinct (map fst d)" and limit: "0 \<le> N" and glob: "glob_match cid name"
  shows "retained N cid (AList.update name s' (retained N cid (AList.update name s d)))
         = retained N cid (AList.update name s' d)"
proof -
  let ?W = "AList.update name s d"
  let ?W' = "AList.update name s' d"
  let ?K = "fst ` set (pruned_files N cid ?W)"
  let ?A = "retained N cid ?W"
  let ?F = "snapshot_files cid ?W"
  have dW: "distinct (map fst ?W)" and dW': "distinct (map fst ?W')"
    using names by (simp_all add: distinct_update)
  have keys: "map fst ?W = map fst ?W'"
    by (simp add: update_keys)
  have K': "fst ` set (pruned_files N cid ?W') = ?K"
    by (rule pruned_names_cong [OF keys [symmetric]])
  have A: "?A = filter (\<lambda>e. fst e \<notin> ?K) ?W"
    by (simp add: retained_def)
  have direct: "retained N cid ?W' = filter (\<lambda>e. fst e \<notin> ?K) ?W'"
    by (simp add: retained_def K')
  show ?thesis
  proof (cases "name \<in> ?K")
    case False
    have "AList.update name s' ?A = filter (\<lambda>e. fst e \<notin> ?K) (AList.update name s' ?W)"
      unfolding A by (rule update_filter_kept [OF False])
    also have "\<dots> = retained N cid ?W'"
      by (simp add: direct)
    finally show ?thesis
      by (simp add: retained_idem [OF dW' limit])
  next
    case True
    have same: "retained N cid ?W' = ?A"
      unfolding direct A
      by (simp add: filter_update_dropped [OF True])
    have "\<forall>e \<in> set ?A. fst e \<notin> ?K"
      unfolding A by simp
    then have absent: "name \<notin> fst ` set ?A"
      using True by blast
    then have upd: "AList.update name s' ?A = ?A @ [(name, s')]"
      by (rule update_fresh)
    have FA: "snapshot_files cid ?A = take (nat N) ?F"
      by (rule snapshot_files_retained [OF dW limit])
    have desc: "sorted_wrt (\<lambda>a b. a > b) (map fst (take (nat N) ?F) @ map fst (drop (nat N) ?F))"
      using descending_snapshot_files [OF dW, of cid]
      by (metis append_take_drop_id map_append)
    have in_drop: "name \<in> fst ` set (drop (nat N) ?F)"
      using True limit by (simp add: pruned_files_drop)
    have newer: "\<forall>e \<in> set (snapshot_files cid ?A). name < fst e"
      unfolding FA using desc in_drop by (auto simp: sorted_wrt_append)
    have "drop (nat N) ?F \<noteq> []"
      using in_drop by auto
    then have len: "length (snapshot_files cid ?A) = nat N"
      unfolding FA by simp
    have "snapshot_files cid (?A @ [(name, s')]) = snapshot_files cid ?A @ [(name, s')]"
      by (rule files_append_oldest [OF glob newer])
    then have "pruned_files N cid (?A @ [(name, s')]) = [(name, s')]"
      using limit len by (simp add: pruned_files_drop)
    then have "retained N cid (?A @ [(name, s')]) = ?A"
      using absent by (auto simp: retained_def [of N cid "?A @ [(name, s')]"] filter_id_conv)
    then show ?thesis
      by (simp add: upd same)
  qed
qed

lemma save_snapshot_retained:
  "snd (save_snapshot N now s fs)
     = fs(company_id s \<mapsto> retained N (company_id s)
          (AList.update (snapshot_filename (company_id s) (strftime now)) s
             (entries fs (company_id s))))"
  by (simp add: save_snapshot_exact retained_def)

lemma newest_is_head:
  assumes names: "distinct (map fst d)" and glob: "glob_match cid name"
    and older: "\<forall>e \<in> set (snapshot_files cid d). fst e \<le> name"
  shows "\<exists>rest. snapshot_files cid (AList.update name s d) = (name, s) # rest"
proof -
  let ?W = "AList.update name s d"
  have dW: "distinct (map fst ?W)"
    using names by (simp add: distinct_update)
  have at_name: "map_of ?W name = Some s"
    by (simp add: update_conv')
  then have mem: "(name, s) \<in> set ?W"
    by (rule map_of_SomeD)
  then have "filter (\<lambda>e. glob_match cid (fst e)) ?W \<noteq> []"
    using glob by (force simp: filter_empty_conv)
  from snapshot_files_head [OF this]
  obtain e rest where e: "snapshot_files cid ?W = e # rest" "e \<in> set ?W"
      "glob_match cid (fst e)"
      "\<forall>y \<in> set ?W. glob_match cid (fst y) \<longrightarrow> fst y \<le> fst e"
    by blast
  have ge: "name \<le> fst e"
    using e(4) mem glob by force
  have le: "fst e \<le> name"
  proof (cases "fst e = name")
    case True
    then show ?thesis by simp
  next
    case False
    have "map_of ?W (fst e) = Some (snd e)"
      using map_of_is_SomeI [OF dW, of "fst e" "snd e"] e(2) by simp
    then have "map_of d (fst e) = Some (snd e)"
      using False by (simp add: update_conv')
    then have "e \<in> set d"
      using map_of_SomeD [of d "fst e" "snd e"] by simp
    then have "e \<in> set (snapshot_files cid d)"
      using e(3) by (simp add: set_snapshot_files)
    then show ?thesis
      using older by blast
  qed
  have "fst e = name"
    using ge le by simp
  moreover have "map_of ?W (fst e) = Some (snd e)"
    using map_of_is_SomeI [OF dW, of "fst e" "snd e"] e(2) by simp
  ultimately have "e = (name, s)"
    using at_name by (cases e) simp
  then show ?thesis
    using e(1) by blast
qed

text \<open>
  C2 (as amended). \<open>save_snapshot\<close> writes the snapshot into the company's directory under
  the name \<open>company_id_YYYYMMDD_HHMMSS.json\<close>, returns that path, and then prunes: the file
  system after the call is the one before with the company's directory replaced by the
  directory as written (\<open>written\<close>) without the pruned files, which for a limit \<open>N \<ge> 0\<close>
  are the entries beyond the \<open>N\<close> greatest names. The directory as written holds the snapshot
  under its name and every other name as before; when the name is new it is the old
  directory with one entry appended, and when the name exists (two saves of one company
  within the same second) it has the same names and the stored snapshot is replaced. So
  entries under other names are never modified: each is as before, or pruned; other
  companies are untouched. With \<open>N \<ge> 1\<close>, a snapshot saved under a name not below the stored
  ones is stored and is the latest. Saving \<open>s\<close> and then \<open>s'\<close> at the same clock value leaves
  exactly the file system that saving \<open>s'\<close> alone leaves. Names stay distinct, and the
  listing by descending name is strict. As stated the claim fails: of two snapshots saved
  within one second only the second remains stored.
\<close>

theorem save_snapshot_entry:
  fixes N :: int and now :: datetime and s :: CompanySnapshot and fs :: filesystem
  defines "cid \<equiv> company_id s"
    and "name \<equiv> snapshot_filename (company_id s) (strftime now)"
    and "after \<equiv> snd (save_snapshot N now s fs)"
    and "written \<equiv> AList.update (snapshot_filename (company_id s) (strftime now)) s
                      (entries fs (company_id s))"
  assumes names: "distinct (map fst (entries fs cid))"
  shows "fst (save_snapshot N now s fs) = cid @ ''/'' @ name
       \<and> after = fs(cid \<mapsto> filter (\<lambda>e. fst e \<notin> fst ` set (pruned_files N cid written)) written)
       \<and> (0 \<le> N \<longrightarrow> pruned_files N cid written = drop (nat N) (snapshot_files cid written))
       \<and> map_of written name = Some s
       \<and> (\<forall>k. k \<noteq> name \<longrightarrow> map_of written k = map_of (entries fs cid) k)
       \<and> (name \<notin> fst ` set (entries fs cid) \<longrightarrow> written = entries fs cid @ [(name, s)])
       \<and> (name \<in> fst ` set (entries fs cid) \<longrightarrow> map fst written = map fst (entries fs cid))
       \<and> (\<forall>c. c \<noteq> cid \<longrightarrow> entries after c = entries fs c)
       \<and> (\<forall>e \<in> set (entries fs cid). fst e \<noteq> name \<longrightarrow>
             map_of (entries after cid) (fst e)
             = (if fst e \<in> fst ` set (pruned_files N cid written) then None
                else Some (snd e)))
       \<and> map_of (entries after cid) name
           = (if name \<in> fst ` set (pruned_files N cid written) then None else Some s)
       \<and> (0 \<le> N \<longrightarrow>
             snapshot_files cid (entries after cid)
             = take (nat N) (snapshot_files cid written))
       \<and> (1 \<le> N \<and> (\<forall>e \<in> set (snapshot_files cid (entries fs cid)). fst e \<le> name) \<longrightarrow>
             snd (get_latest_snapshot cid after) = Some s)
       \<and> (\<forall>s'. company_id s' = cid \<and> 0 \<le> N \<longrightarrow>
             snd (save_snapshot N now s' after) = snd (save_snapshot N now s' fs))
       \<and> distinct (map fst (entries after cid))
       \<and> sorted_wrt (\<lambda>a b. a > b) (map fst (snapshot_files cid (entries after cid)))"
proof -
  let ?d = "entries fs cid"
  let ?K = "fst ` set (pruned_files N cid written)"
  have dW: "distinct (map fst written)"
    using names by (simp add: written_def cid_def distinct_update)
  have 1: "fst (save_snapshot N now s fs) = cid @ ''/'' @ name"
    by (simp add: save_snapshot_path cid_def name_def)
  have 2: "after = fs(cid \<mapsto> filter (\<lambda>e. fst e \<notin> ?K) written)"
    unfolding after_def cid_def written_def by (rule save_snapshot_exact)
  then have ent: "entries after cid = filter (\<lambda>e. fst e \<notin> ?K) written"
    by simp
  have ret: "entries after cid = retained N cid written"
    by (simp add: ent retained_def)
  have 3: "0 \<le> N \<longrightarrow> pruned_files N cid written = drop (nat N) (snapshot_files cid written)"
    by (simp add: pruned_files_drop)
  have 4: "map_of written name = Some s"
    by (simp add: written_def name_def update_conv')
  have 5: "\<forall>k. k \<noteq> name \<longrightarrow> map_of written k = map_of ?d k"
    by (simp add: written_def name_def cid_def update_conv')
  have 6: "name \<notin> fst ` set ?d \<longrightarrow> written = ?d @ [(name, s)]"
    by (simp add: written_def name_def cid_def update_fresh)
  have 7: "name \<in> fst ` set ?d \<longrightarrow> map fst written = map fst ?d"
    by (simp add: written_def name_def cid_def update_keys)
  have 8: "\<forall>c. c \<noteq> cid \<longrightarrow> entries after c = entries fs c"
    by (simp add: 2)
  have 9: "\<forall>e \<in> set ?d. fst e \<noteq> name \<longrightarrow>
             map_of (entries after cid) (fst e)
             = (if fst e \<in> ?K then None else Some (snd e))"
  proof (intro ballI impI)
    fix e assume e: "e \<in> set ?d" "fst e \<noteq> name"
    have "map_of ?d (fst e) = Some (snd e)"
      using map_of_is_SomeI [OF names, of "fst e" "snd e"] e(1) by simp
    then show "map_of (entries after cid) (fst e)
             = (if fst e \<in> ?K then None else Some (snd e))"
      using e(2) 5 by (simp add: ent map_of_filter_keys)
  qed
  have 10: "map_of (entries after cid) name = (if name \<in> ?K then None else Some s)"
    by (simp add: ent map_of_filter_keys 4)
  have 11: "0 \<le> N \<longrightarrow>
             snapshot_files cid (entries after cid) = take (nat N) (snapshot_files cid written)"
    using dW by (simp add: ret snapshot_files_retained)
  have 12: "1 \<le> N \<and> (\<forall>e \<in> set (snapshot_files cid ?d). fst e \<le> name) \<longrightarrow>
             snd (get_latest_snapshot cid after) = Some s"
  proof
    assume a: "1 \<le> N \<and> (\<forall>e \<in> set (snapshot_files cid ?d). fst e \<le> name)"
    have glob: "glob_match cid name"
      by (simp add: name_def cid_def)
    from newest_is_head [OF names glob, of s] a
    obtain rest where "snapshot_files cid written = (name, s) # rest"
      unfolding written_def name_def cid_def by blast
    moreover have "nat N = Suc (nat N - 1)"
      using a by simp
    ultimately have "snapshot_files cid (entries after cid) = (name, s) # take (nat N - 1) rest"
      using 11 a by (metis take_Suc_Cons zero_le_one order_trans)
    then show "snd (get_latest_snapshot cid after) = Some s"
      by (simp add: get_latest_snapshot_def Let_def)
  qed
  have 13: "\<forall>s'. company_id s' = cid \<and> 0 \<le> N \<longrightarrow>
             snd (save_snapshot N now s' after) = snd (save_snapshot N now s' fs)"
  proof (intro allI impI)
    fix s' :: CompanySnapshot
    assume s': "company_id s' = cid \<and> 0 \<le> N"
    have glob: "glob_match cid name"
      by (simp add: name_def cid_def)
    have "snd (save_snapshot N now s' after)
          = after(cid \<mapsto> retained N cid (AList.update name s' (entries after cid)))"
      using s' by (simp add: save_snapshot_retained name_def cid_def)
    also have "\<dots> = fs(cid \<mapsto> retained N cid (AList.update name s' (retained N cid written)))"
      by (simp add: ret) (simp add: 2)
    also have "\<dots> = fs(cid \<mapsto> retained N cid (AList.update name s' ?d))"
      using retained_update_twice [OF names _ glob, of N s' s] s'
      by (simp add: written_def name_def cid_def)
    also have "\<dots> = snd (save_snapshot N now s' fs)"
      using s' by (simp add: save_snapshot_retained name_def cid_def)
    finally show "snd (save_snapshot N now s' after) = snd (save_snapshot N now s' fs)" .
  qed
  have 14: "distinct (map fst (entries after cid))"
    using dW by (simp add: ret distinct_retained)
  have 15: "sorted_wrt (\<lambda>a b. a > b) (map fst (snapshot_files cid (entries after cid)))"
    using 14 by (rule descending_snapshot_files)
  show ?thesis
    by (intro conjI) (fact 1 2 3 4 5 6 7 8 9 10 11 12 13 14 15)+
qed

theorem same_second_save_overwrites:
  "snd (get_all_snapshots ''fixo''
          (snd (save_snapshot 90 example_t1 example_new
             (snd (save_snapshot 90 example_t1 example_old Map.empty)))))
     = [example_new]
   \<and> example_old \<notin> set (snd (get_all_snapshots ''fixo''
          (snd (save_snapshot 90 example_t1 example_new
             (snd (save_snapshot 90 example_t1 example_old Map.empty))))))"
proof -
  have "int (length (snapshot_files ''fixo'' (entries example_fs1 ''fixo''))) < 90"
    using length_snapshot_files_le [of "''fixo''" "entries example_fs1 ''fixo''"]
    by (simp add: example_fs1_entries)
  then have "entries (snd (save_snapshot 90 example_t1 example_new example_fs1)) ''fixo''
        = [(''fixo_20250101_090000.json'', example_new)]"
    using save_snapshot_room [where s = example_new and fs = example_fs1 and N = 90
        and now = example_t1]
    by (simp add: example_company_id example_names example_fs1_entries)
  then have "snd (get_all_snapshots ''fixo''
          (snd (save_snapshot 90 example_t1 example_new example_fs1))) = [example_new]"
    by (simp add: get_all_snapshots_def Let_def snapshot_files_def glob_match_def)
  moreover have "example_old \<noteq> example_new"
    by (simp add: example_old_def example_new_def)
  ultimately show ?thesis
    by (simp add: example_fs1_def)
qed

theorem save_snapshot_entry_witness:
  "distinct (map fst (entries Map.empty (company_id example_old)))
   \<and> distinct (map fst (entries example_fs1 (company_id example_new)))
   \<and> fst (save_snapshot 90 example_t1 example_old Map.empty)
       = ''fixo/fixo_20250101_090000.json''
   \<and> entries (snd (save_snapshot 90 example_t1 example_old Map.empty)) ''fixo''
       = [(''fixo_20250101_090000.json'', example_old)]
   \<and> snd (get_latest_snapshot ''fixo'' (snd (save_snapshot 90 example_t1 example_old Map.empty)))
       = Some example_old
   \<and> snd (save_snapshot 90 example_t1 example_new
            (snd (save_snapshot 90 example_t1 example_old Map.empty)))
       = snd (save_snapshot 90 example_t1 example_new Map.empty)
   \<and> map fst (entries (snd (save_snapshot 90 example_t1 example_new example_fs1)) ''fixo'')
       = [''fixo_20250101_090000.json'']
   \<and> map_of (entries (snd (save_snapshot 90 example_t1 example_new example_fs1)) ''fixo'')
         ''fixo_20250101_090000.json'' = Some example_new"
proof -
  have d0: "distinct (map fst (entries Map.empty (company_id example_old)))"
    by simp
  have d1: "distinct (map fst (entries example_fs1 (company_id example_new)))"
    by (simp add: example_company_id example_fs1_entries)
  note w0 = save_snapshot_entry [OF d0, where N = 90 and now = example_t1,
      unfolded example_company_id example_names]
  note w1 = save_snapshot_entry [OF d1, where N = 90 and now = example_t1,
      unfolded example_company_id example_names example_fs1_entries]
  have one: "snapshot_files ''fixo'' [(''fixo_20250101_090000.json'', s)]
             = [(''fixo_20250101_090000.json'', s)]" for s
    by (simp add: snapshot_files_def glob_match_def)
  have none: "pruned_files 90 ''fixo'' [(''fixo_20250101_090000.json'', s)] = []" for s
    by (simp add: pruned_files_def one)
  note r1 = w0 [THEN conjunct2]
  note r5 = r1 [THEN conjunct2, THEN conjunct2, THEN conjunct2, THEN conjunct2]
  note r9 = r5 [THEN conjunct2, THEN conjunct2, THEN conjunct2, THEN conjunct2]
  note r11 = r9 [THEN conjunct2, THEN conjunct2]
  note q1 = w1 [THEN conjunct2]
  note q5 = q1 [THEN conjunct2, THEN conjunct2, THEN conjunct2, THEN conjunct2]
  note q9 = q5 [THEN conjunct2, THEN conjunct2, THEN conjunct2, THEN conjunct2]
  have a: "fst (save_snapshot 90 example_t1 example_old Map.empty)
       = ''fixo/fixo_20250101_090000.json''"
    using w0 [THEN conjunct1] by simp
  have b: "entries (snd (save_snapshot 90 example_t1 example_old Map.empty)) ''fixo''
       = [(''fixo_20250101_090000.json'', example_old)]"
    using r1 [THEN conjunct1] by (simp add: none)
  have "(1::int) \<le> 90 \<and> (\<forall>e \<in> set (snapshot_files ''fixo'' (entries Map.empty ''fixo'')).
           fst e \<le> ''fixo_20250101_090000.json'')"
    by simp
  then have l: "snd (get_latest_snapshot ''fixo''
        (snd (save_snapshot 90 example_t1 example_old Map.empty))) = Some example_old"
    using r11 [THEN conjunct1] by blast
  have "company_id example_new = ''fixo'' \<and> (0::int) \<le> 90"
    by (simp add: example_company_id)
  then have t: "snd (save_snapshot 90 example_t1 example_new
            (snd (save_snapshot 90 example_t1 example_old Map.empty)))
       = snd (save_snapshot 90 example_t1 example_new Map.empty)"
    using r11 [THEN conjunct2, THEN conjunct1] by blast
  have c: "map_of (entries (snd (save_snapshot 90 example_t1 example_new example_fs1))
         ''fixo'') ''fixo_20250101_090000.json'' = Some example_new"
    using q9 [THEN conjunct1] by (simp add: none)
  have k: "map fst (entries (snd (save_snapshot 90 example_t1 example_new example_fs1))
        ''fixo'') = [''fixo_20250101_090000.json'']"
    using q1 [THEN conjunct1] by (simp add: none)
  show ?thesis
    using d0 d1 a b l t k c by simp
qed

text \<open>
  C4 (as amended). \<open>get_latest_snapshot\<close> never creates, changes or deletes a file, in any
  directory, and leaves every other company's directory as it is. Its one possible effect is
  that of \<open>_company_dir\<close>: the company's own directory is created, empty, when it does not
  exist yet; when it exists the file system is unchanged. As stated, for every input, the
  claim fails: on a file system without the company's directory the directory appears.
\<close>

theorem get_latest_snapshot_effect:
  "fst (get_latest_snapshot cid fs) = (if cid \<in> dom fs then fs else fs(cid \<mapsto> []))
   \<and> (\<forall>c. entries (fst (get_latest_snapshot cid fs)) c = entries fs c)
   \<and> (\<forall>c. c \<noteq> cid \<longrightarrow> fst (get_latest_snapshot cid fs) c = fs c)"
  by (auto simp: get_latest_snapshot_def Let_def company_dir_def entries_def split: option.splits)

theorem get_latest_snapshot_creates_directory:
  "fst (get_latest_snapshot ''fixo'' Map.empty) \<noteq> Map.empty"
proof
  assume "fst (get_latest_snapshot ''fixo'' Map.empty) = Map.empty"
  then have "fst (get_latest_snapshot ''fixo'' Map.empty) ''fixo'' = None"
    by simp
  then show False
    by (simp add: get_latest_snapshot_def Let_def company_dir_def)
qed

theorem get_latest_snapshot_effect_witness:
  "fst (get_latest_snapshot ''fixo'' [''fixo'' \<mapsto> [], ''webel'' \<mapsto> []])
     = [''fixo'' \<mapsto> [], ''webel'' \<mapsto> []]
   \<and> fst (get_latest_snapshot ''fixo'' [''webel'' \<mapsto> []]) ''webel'' = Some []
   \<and> fst (get_latest_snapshot ''fixo'' [''webel'' \<mapsto> []]) ''fixo'' = Some []"
  using get_latest_snapshot_effect [of "''fixo''" "[''fixo'' \<mapsto> [], ''webel'' \<mapsto> []]"]
    get_latest_snapshot_effect [of "''fixo''" "[''webel'' \<mapsto> []]"]
  by (simp add: dom_def)

lemma latest_of_stored:
  assumes names: "distinct (map fst (entries fs cid))"
    and stored: "filter (\<lambda>e. glob_match cid (fst e)) (entries fs cid) = files_of_saves cid stored"
    and valid: "\<forall>(t, s) \<in> set stored. valid_datetime t"
  shows "(stored = [] \<longrightarrow> snd (get_latest_snapshot cid fs) = None)
       \<and> (stored \<noteq> [] \<longrightarrow>
            (\<exists>(t, s) \<in> set stored.
               snd (get_latest_snapshot cid fs) = Some s
               \<and> (\<forall>(t', s') \<in> set stored.
                     datetime_fields t' \<le> datetime_fields t
                     \<and> (datetime_fields t' = datetime_fields t \<longrightarrow> s' = s))))"
proof (intro conjI impI)
  assume "stored = []"
  then have "snapshot_files cid (entries fs cid) = []"
    using stored by (simp add: snapshot_files_def files_of_saves_def)
  then show "snd (get_latest_snapshot cid fs) = None"
    by (simp add: get_latest_snapshot_def Let_def)
next
  let ?d = "entries fs cid"
  let ?name = "\<lambda>t. snapshot_filename cid (strftime t)"
  assume "stored \<noteq> []"
  then have "filter (\<lambda>e. glob_match cid (fst e)) ?d \<noteq> []"
    using stored by (simp add: files_of_saves_def)
  from snapshot_files_head [OF this]
  obtain e rest where e: "snapshot_files cid ?d = e # rest" "e \<in> set ?d"
      "glob_match cid (fst e)"
      "\<forall>y \<in> set ?d. glob_match cid (fst y) \<longrightarrow> fst y \<le> fst e"
    by blast
  have matching: "set (files_of_saves cid stored) = {y \<in> set ?d. glob_match cid (fst y)}"
    using stored by (metis set_filter)
  from e(2,3) have "e \<in> set (files_of_saves cid stored)"
    by (simp add: matching)
  then obtain t s where ts: "(t, s) \<in> set stored" "e = (?name t, s)"
    by (auto simp: files_of_saves_def)
  have latest: "snd (get_latest_snapshot cid fs) = Some s"
    using e(1) ts(2) by (simp add: get_latest_snapshot_def Let_def)
  have vt: "valid_datetime t"
    using valid ts(1) by auto
  have greatest: "datetime_fields t' \<le> datetime_fields t
                  \<and> (datetime_fields t' = datetime_fields t \<longrightarrow> s' = s)"
    if other: "(t', s') \<in> set stored" for t' s'
  proof
    have vt': "valid_datetime t'"
      using valid other by auto
    have "(?name t', s') \<in> set (files_of_saves cid stored)"
      using other by (force simp: files_of_saves_def)
    then have in_d: "(?name t', s') \<in> set ?d" "glob_match cid (?name t')"
      by (simp_all add: matching)
    then have "?name t' \<le> fst e"
      using e(4) by force
    then show "datetime_fields t' \<le> datetime_fields t"
      using ts(2) by (simp add: snapshot_filename_le [OF vt' vt])
    show "datetime_fields t' = datetime_fields t \<longrightarrow> s' = s"
    proof
      assume "datetime_fields t' = datetime_fields t"
      then have "t' = t"
        by (rule datetime_fields_inj)
      then have "(?name t, s') \<in> set ?d" "(?name t, s) \<in> set ?d"
        using in_d(1) e(2) ts(2) by simp_all
      then show "s' = s"
        using names by (rule eq_key_imp_eq_value [rotated])
    qed
  qed
  show "\<exists>(t, s) \<in> set stored.
               snd (get_latest_snapshot cid fs) = Some s
               \<and> (\<forall>(t', s') \<in> set stored.
                     datetime_fields t' \<le> datetime_fields t
                     \<and> (datetime_fields t' = datetime_fields t \<longrightarrow> s' = s))"
    using ts(1) latest greatest by blast
qed

text \<open>
  C5 (as amended). Let the snapshot files of a company be those written by saves at the
  clock values of \<open>stored\<close>, listed in any order. With no such file (in particular for a
  company never scanned) \<open>get_latest_snapshot\<close> returns \<open>None\<close>; otherwise it returns the
  snapshot saved at the greatest clock value, and that snapshot is the only one stored at
  that value. The storage orders by the clock value of the save, which is in the file name,
  and never reads the \<open>timestamp\<close> of a snapshot: when the timestamps of the stored snapshots
  are ordered as their saves are, the snapshot returned is also the one with the greatest
  timestamp. As stated the claim fails: of a snapshot saved first and one with an earlier
  timestamp saved after it, the second is returned.
\<close>

theorem get_latest_snapshot_greatest:
  assumes names: "distinct (map fst (entries fs cid))"
    and stored: "filter (\<lambda>e. glob_match cid (fst e)) (entries fs cid) = files_of_saves cid stored"
    and valid: "\<forall>(t, s) \<in> set stored. valid_datetime t"
  shows "(stored = [] \<longrightarrow> snd (get_latest_snapshot cid fs) = None)
       \<and> (stored \<noteq> [] \<longrightarrow>
            (\<exists>(t, s) \<in> set stored.
               snd (get_latest_snapshot cid fs) = Some s
               \<and> (\<forall>(t', s') \<in> set stored.
                     datetime_fields t' \<le> datetime_fields t
                     \<and> (datetime_fields t' = datetime_fields t \<longrightarrow> s' = s))))
       \<and> (stored \<noteq> []
            \<and> (\<forall>(t, s) \<in> set stored. \<forall>(t', s') \<in> set stored.
                  datetime_fields t' \<le> datetime_fields t \<longrightarrow> timestamp s' \<le> timestamp s) \<longrightarrow>
            (\<exists>(t, s) \<in> set stored.
               snd (get_latest_snapshot cid fs) = Some s
               \<and> (\<forall>(t', s') \<in> set stored. timestamp s' \<le> timestamp s)))"
proof -
  note l = latest_of_stored [OF names stored valid]
  have 1: "stored = [] \<longrightarrow> snd (get_latest_snapshot cid fs) = None"
    using l by (rule conjunct1)
  have 2: "stored \<noteq> [] \<longrightarrow>
            (\<exists>(t, s) \<in> set stored.
               snd (get_latest_snapshot cid fs) = Some s
               \<and> (\<forall>(t', s') \<in> set stored.
                     datetime_fields t' \<le> datetime_fields t
                     \<and> (datetime_fields t' = datetime_fields t \<longrightarrow> s' = s)))"
    using l by (rule conjunct2)
  have 3: "stored \<noteq> []
            \<and> (\<forall>(t, s) \<in> set stored. \<forall>(t', s') \<in> set stored.
                  datetime_fields t' \<le> datetime_fields t \<longrightarrow> timestamp s' \<le> timestamp s) \<longrightarrow>
            (\<exists>(t, s) \<in> set stored.
               snd (get_latest_snapshot cid fs) = Some s
               \<and> (\<forall>(t', s') \<in> set stored. timestamp s' \<le> timestamp s))"
  proof
    assume a: "stored \<noteq> []
            \<and> (\<forall>(t, s) \<in> set stored. \<forall>(t', s') \<in> set stored.
                  datetime_fields t' \<le> datetime_fields t \<longrightarrow> timestamp s' \<le> timestamp s)"
    with 2 obtain t s where ts: "(t, s) \<in> set stored"
        "snd (get_latest_snapshot cid fs) = Some s"
        "\<forall>(t', s') \<in> set stored. datetime_fields t' \<le> datetime_fields t"
      by fast
    have "\<forall>(t', s') \<in> set stored. timestamp s' \<le> timestamp s"
    proof (intro ballI)
      fix x assume x: "x \<in> set stored"
      obtain t' s' where x': "x = (t', s')" by (cases x)
      have "datetime_fields t' \<le> datetime_fields t"
        using ts(3) x x' by auto
      then have "timestamp s' \<le> timestamp s"
        using a ts(1) x x' by fast
      then show "case x of (t', s') \<Rightarrow> timestamp s' \<le> timestamp s"
        by (simp add: x')
    qed
    with ts(1,2) show "\<exists>(t, s) \<in> set stored.
               snd (get_latest_snapshot cid fs) = Some s
               \<and> (\<forall>(t', s') \<in> set stored. timestamp s' \<le> timestamp s)"
      by blast
  qed
  show ?thesis
    by (intro conjI) (fact 1 2 3)+
qed

theorem latest_ignores_snapshot_timestamp:
  "snd (get_latest_snapshot ''fixo''
          (snd (save_snapshot 90 example_t2 example_old
             (snd (save_snapshot 90 example_t1 example_new Map.empty)))))
     = Some example_old
   \<and> example_new \<in> set (snd (get_all_snapshots ''fixo''
          (snd (save_snapshot 90 example_t2 example_old
             (snd (save_snapshot 90 example_t1 example_new Map.empty))))))
   \<and> timestamp example_old < timestamp example_new"
proof -
  let ?n1 = "''fixo_20250101_090000.json''"
  let ?n2 = "''fixo_20250102_093005.json''"
  let ?fs1 = "snd (save_snapshot 90 example_t1 example_new Map.empty)"
  let ?fs2 = "snd (save_snapshot 90 example_t2 example_old ?fs1)"
  have 1: "entries ?fs1 ''fixo'' = [(?n1, example_new)]"
    using save_snapshot_room [where s = example_new and fs = Map.empty and N = 90
        and now = example_t1]
    by (simp add: example_company_id example_names)
  have "int (length (snapshot_files ''fixo'' (entries ?fs1 ''fixo''))) < 90"
    using length_snapshot_files_le [of "''fixo''" "entries ?fs1 ''fixo''"]
    by (simp add: 1)
  then have 2: "entries ?fs2 ''fixo'' = [(?n1, example_new), (?n2, example_old)]"
    using save_snapshot_room [where s = example_old and fs = ?fs1 and N = 90
        and now = example_t2]
    by (simp add: example_company_id example_names 1)
  have files: "snapshot_files ''fixo'' [(?n1, example_new), (?n2, example_old)]
               = [(?n2, example_old), (?n1, example_new)]"
    by (simp add: snapshot_files_def glob_match_def)
  have a: "snd (get_latest_snapshot ''fixo'' ?fs2) = Some example_old"
    by (simp add: get_latest_snapshot_def Let_def 2 files)
  have b: "example_new \<in> set (snd (get_all_snapshots ''fixo'' ?fs2))"
    by (simp add: snd_get_all_snapshots 2 files)
  have c: "timestamp example_old < timestamp example_new"
    by (simp add: example_old_def example_new_def)
  show ?thesis
    using a b c by simp
qed

theorem get_latest_snapshot_greatest_witness:
  "distinct (map fst (entries example_fs ''fixo''))
   \<and> filter (\<lambda>e. glob_match ''fixo'' (fst e)) (entries example_fs ''fixo'')
       = files_of_saves ''fixo'' [(example_t2, example_new), (example_t1, example_old)]
   \<and> valid_datetime example_t1 \<and> valid_datetime example_t2
   \<and> snd (get_latest_snapshot ''fixo'' example_fs) = Some example_new
   \<and> snd (get_latest_snapshot ''webel'' example_fs) = None
   \<and> timestamp example_old \<le> timestamp example_new
   \<and> (\<exists>(t, s) \<in> set [(example_t2, example_new), (example_t1, example_old)].
         snd (get_latest_snapshot ''fixo'' example_fs) = Some s
         \<and> timestamp example_old \<le> timestamp s \<and> timestamp example_new \<le> timestamp s)"
proof -
  have names: "distinct (map fst (entries example_fs ''fixo''))"
    by (simp add: example_fs_entries)
  have stored: "filter (\<lambda>e. glob_match ''fixo'' (fst e)) (entries example_fs ''fixo'')
       = files_of_saves ''fixo'' [(example_t2, example_new), (example_t1, example_old)]"
    by (simp add: example_fs_entries files_of_saves_def example_names glob_match_def)
  have valid: "\<forall>(t, s) \<in> set [(example_t2, example_new), (example_t1, example_old)].
                 valid_datetime t"
    by (simp add: example_valid)
  note g = get_latest_snapshot_greatest [OF names stored valid]
  then have 1: "\<exists>(t, s) \<in> set [(example_t2, example_new), (example_t1, example_old)].
         snd (get_latest_snapshot ''fixo'' example_fs) = Some s
         \<and> datetime_fields example_t2 \<le> datetime_fields t"
    by auto
  have lt: "\<not> datetime_fields example_t2 \<le> datetime_fields example_t1"
    by (simp add: datetime_fields_def example_t1_def example_t2_def)
  from 1 lt have 2: "snd (get_latest_snapshot ''fixo'' example_fs) = Some example_new"
    by auto
  have 3: "snd (get_latest_snapshot ''webel'' example_fs) = None"
    using get_latest_snapshot_greatest [of example_fs "''webel''" "[]"]
    by (simp add: example_fs_other files_of_saves_def)
  have order: "timestamp example_old \<le> timestamp example_new"
    by (simp add: example_old_def example_new_def)
  have le: "datetime_fields example_t1 \<le> datetime_fields example_t2"
    using lt by simp
  have agree: "[(example_t2, example_new), (example_t1, example_old)] \<noteq> []
      \<and> (\<forall>(t, s) \<in> set [(example_t2, example_new), (example_t1, example_old)].
           \<forall>(t', s') \<in> set [(example_t2, example_new), (example_t1, example_old)].
             datetime_fields t' \<le> datetime_fields t \<longrightarrow> timestamp s' \<le> timestamp s)"
    using order lt by simp
  have 4: "\<exists>(t, s) \<in> set [(example_t2, example_new), (example_t1, example_old)].
         snd (get_latest_snapshot ''fixo'' example_fs) = Some s
         \<and> timestamp example_old \<le> timestamp s \<and> timestamp example_new \<le> timestamp s"
    using g [THEN conjunct2, THEN conjunct2, rule_format, OF agree] by auto
  show ?thesis
    using names stored example_valid 2 3 order 4 by simp
qed

text \<open>
  C6 (as amended). With a limit \<open>N \<ge> 0\<close> and a company without snapshot files, \<open>N + 1\<close> saves
  at strictly increasing clock values leave exactly \<open>N\<close> snapshots: \<open>get_all_snapshots\<close>
  returns all but the first save, newest first. After every save the listing is the first
  \<open>N\<close> entries, by descending name, of the listing of the directory as written. As stated
  the claim fails: saves within the same second overwrite each other, so \<open>N + 1\<close> saves can
  leave fewer than \<open>N\<close> snapshots.
\<close>

theorem retention_after_increasing_saves:
  assumes limit: "0 \<le> N"
    and count: "length saves = nat N + 1"
    and saves: "\<forall>(t, s) \<in> set saves. valid_datetime t \<and> company_id s = cid"
    and increasing: "sorted_wrt (\<lambda>a b. datetime_fields a < datetime_fields b) (map fst saves)"
    and names: "distinct (map fst (entries fs cid))"
    and fresh: "snapshot_files cid (entries fs cid) = []"
  shows "snd (get_all_snapshots cid (save_all N saves fs)) = rev (map snd (tl saves))
       \<and> length (snd (get_all_snapshots cid (save_all N saves fs))) = nat N
       \<and> (\<forall>now s fs'. company_id s = cid \<and> distinct (map fst (entries fs' cid)) \<longrightarrow>
             snapshot_files cid (entries (snd (save_snapshot N now s fs')) cid)
             = take (nat N) (snapshot_files cid
                 (AList.update (snapshot_filename cid (strftime now)) s (entries fs' cid))))"
proof -
  have ne: "saves \<noteq> []"
    using count by auto
  obtain t s where last: "last saves = (t, s)"
    by (cases "last saves")
  let ?pre = "butlast saves"
  let ?mid = "save_all N ?pre fs"
  let ?name = "snapshot_filename cid (strftime t)"
  have split: "saves = ?pre @ [(t, s)]"
    using ne last by (metis append_butlast_last_id)
  have ts: "valid_datetime t" "company_id s = cid"
    using saves ne last by (metis (mono_tags, lifting) case_prodD last_in_set)+
  have pre_valid: "\<forall>(t, s) \<in> set ?pre. valid_datetime t \<and> company_id s = cid"
    using saves by (auto dest: in_set_butlastD)
  have pre_sorted: "sorted_wrt (\<lambda>a b. datetime_fields a < datetime_fields b) (map fst ?pre)"
    using increasing by (subst (asm) split) (simp add: sorted_wrt_append)
  have pre_room: "int (length (snapshot_files cid (entries fs cid)) + length ?pre) \<le> N"
    using count fresh limit by simp
  have pre_older: "\<forall>e \<in> set (snapshot_files cid (entries fs cid)). \<forall>(t, s) \<in> set ?pre.
           fst e < snapshot_filename cid (strftime t)"
    by (simp add: fresh)
  from save_all_increasing [OF names pre_valid pre_sorted pre_older pre_room]
  have mid: "snapshot_files cid (entries ?mid cid) = rev (files_of_saves cid ?pre)"
    and mid_names: "distinct (map fst (entries ?mid cid))"
    by (simp_all add: fresh)
  have older: "\<forall>e \<in> set (snapshot_files cid (entries ?mid cid)). fst e < ?name"
  proof
    fix e assume "e \<in> set (snapshot_files cid (entries ?mid cid))"
    then obtain t' s' where e: "(t', s') \<in> set ?pre" "e = (snapshot_filename cid (strftime t'), s')"
      by (auto simp: mid files_of_saves_def)
    have vt': "valid_datetime t'"
      using pre_valid e(1) by auto
    have "datetime_fields t' < datetime_fields t"
      using increasing e(1) by (subst (asm) split) (force simp: sorted_wrt_append)
    then show "fst e < ?name"
      by (simp add: e(2) snapshot_filename_less [OF vt' ts(1)])
  qed
  have "save_all N saves fs = snd (save_snapshot N t s ?mid)"
    by (subst split) (simp add: save_all_append)
  then have "snapshot_files cid (entries (save_all N saves fs) cid)
             = take (nat N) (snapshot_files cid (AList.update ?name s (entries ?mid cid)))"
    using save_snapshot_files [where s = s and fs = ?mid and N = N and now = t]
      mid_names limit ts(2) by simp
  also have "\<dots> = take (nat N) ((?name, s) # rev (files_of_saves cid ?pre))"
    by (simp add: files_update_newest [OF mid_names older] mid)
  also have "\<dots> = take (nat N) (rev (files_of_saves cid saves))"
    by (subst (2) split) (simp add: files_of_saves_def)
  also have "\<dots> = rev (files_of_saves cid (tl saves))"
    using count by (simp add: take_rev files_of_saves_def drop_Suc drop_map [symmetric] map_tl)
  finally have files: "snapshot_files cid (entries (save_all N saves fs) cid)
                       = rev (files_of_saves cid (tl saves))" .
  have 1: "snd (get_all_snapshots cid (save_all N saves fs)) = rev (map snd (tl saves))"
    by (simp add: snd_get_all_snapshots files rev_map [symmetric] map_snd_files_of_saves)
  have 2: "length (snd (get_all_snapshots cid (save_all N saves fs))) = nat N"
    using count by (simp add: 1)
  have 3: "\<forall>now s fs'. company_id s = cid \<and> distinct (map fst (entries fs' cid)) \<longrightarrow>
             snapshot_files cid (entries (snd (save_snapshot N now s fs')) cid)
             = take (nat N) (snapshot_files cid
                 (AList.update (snapshot_filename cid (strftime now)) s (entries fs' cid)))"
    using save_snapshot_files limit by auto
  show ?thesis
    by (intro conjI) (fact 1 2 3)+
qed

theorem retention_with_same_second_saves:
  "snd (get_all_snapshots ''fixo''
          (save_all 2 [(example_t1, example_old), (example_t1, example_new),
                       (example_t1, example_old)] Map.empty))
     = [example_old]
   \<and> length (snd (get_all_snapshots ''fixo''
          (save_all 2 [(example_t1, example_old), (example_t1, example_new),
                       (example_t1, example_old)] Map.empty))) \<noteq> 2"
proof -
  let ?name = "''fixo_20250101_090000.json''"
  let ?fs1 = "snd (save_snapshot 2 example_t1 example_old Map.empty)"
  let ?fs2 = "snd (save_snapshot 2 example_t1 example_new ?fs1)"
  let ?fs3 = "snd (save_snapshot 2 example_t1 example_old ?fs2)"
  have one: "length (snapshot_files ''fixo'' [(?name, s)]) = 1" for s
    by (simp add: snapshot_files_def glob_match_def)
  have 1: "entries ?fs1 ''fixo'' = [(?name, example_old)]"
    using save_snapshot_room [where s = example_old and fs = Map.empty and N = 2
        and now = example_t1]
    by (simp add: example_company_id example_names)
  have 2: "entries ?fs2 ''fixo'' = [(?name, example_new)]"
    using save_snapshot_room [where s = example_new and fs = ?fs1 and N = 2
        and now = example_t1]
    by (simp add: example_company_id example_names 1 one)
  have 3: "entries ?fs3 ''fixo'' = [(?name, example_old)]"
    using save_snapshot_room [where s = example_old and fs = ?fs2 and N = 2
        and now = example_t1]
    by (simp add: example_company_id example_names 2 one)
  have "snd (get_all_snapshots ''fixo'' ?fs3) = [example_old]"
    by (simp add: snd_get_all_snapshots 3 snapshot_files_def glob_match_def)
  then show ?thesis
    by simp
qed

theorem retention_after_increasing_saves_witness:
  "(0::int) \<le> 1
   \<and> length [(example_t1, example_old), (example_t2, example_new)] = nat 1 + 1
   \<and> valid_datetime example_t1 \<and> valid_datetime example_t2
   \<and> datetime_fields example_t1 < datetime_fields example_t2
   \<and> snd (get_all_snapshots ''fixo''
        (save_all 1 [(example_t1, example_old), (example_t2, example_new)] Map.empty))
      = [example_new]"
proof -
  have saves: "\<forall>(t, s) \<in> set [(example_t1, example_old), (example_t2, example_new)].
                 valid_datetime t \<and> company_id s = ''fixo''"
    by (simp add: example_valid example_company_id)
  have lt: "datetime_fields example_t1 < datetime_fields example_t2"
    by (simp add: datetime_fields_def example_t1_def example_t2_def)
  then have increasing: "sorted_wrt (\<lambda>a b. datetime_fields a < datetime_fields b)
      (map fst [(example_t1, example_old), (example_t2, example_new)])"
    by simp
  have "snd (get_all_snapshots ''fixo''
        (save_all 1 [(example_t1, example_old), (example_t2, example_new)] Map.empty))
      = rev (map snd (tl [(example_t1, example_old), (example_t2, example_new)]))"
    using retention_after_increasing_saves [where N = 1 and cid = "''fixo''"
        and fs = Map.empty
        and saves = "[(example_t1, example_old), (example_t2, example_new)]",
        OF _ _ saves increasing]
    by simp
  then show ?thesis
    using lt example_valid by simp
qed

section \<open>Properties of the agent\<close>

lemma all_changes_scan_step:
  "all_changes (scan_step N env cid st)
     = AList.update cid (recorded_changes (fst (scan_company N (env cid) cid (files st))))
         (all_changes st)"
  by (auto simp: scan_step_def recorded_changes_def split: prod.splits sum.splits)

lemma files_scan_step:
  "files (scan_step N env cid st) = snd (scan_company N (env cid) cid (files st))"
  by (auto simp: scan_step_def split: prod.splits sum.splits)

lemma keys_fold_scan_step:
  "fst ` set (all_changes (fold (scan_step N env) ids st))
     = fst ` set (all_changes st) \<union> set ids"
  by (induction ids arbitrary: st) (auto simp: all_changes_scan_step dom_update)

lemma map_of_fold_scan_step_other:
  "X \<notin> set ids \<Longrightarrow>
     map_of (all_changes (fold (scan_step N env) ids st)) X = map_of (all_changes st) X"
  by (induction ids arbitrary: st) (auto simp: all_changes_scan_step update_conv')

lemma get_latest_snapshot_result:
  "get_latest_snapshot cid fs
     = (company_dir cid fs,
        case snapshot_files cid (entries fs cid) of [] \<Rightarrow> None | f # _ \<Rightarrow> Some (snd f))"
  by (simp add: get_latest_snapshot_def Let_def)

lemma scan_company_write_failure:
  "scraper e = Some (Inr s) \<Longrightarrow> save_error e = Some err \<Longrightarrow>
     scan_company N e cid fs = (Inl err, company_dir (company_id s) (company_dir cid fs))"
  by (simp add: scan_company_def get_latest_snapshot_result)

lemma scan_company_with_previous:
  assumes "scraper e = Some (Inr s)" "save_error e = None"
    and "snapshot_files cid (entries fs cid) = (name, p) # rest"
    and "detect_changes (detect_now e) p s = Inr changes"
  shows "fst (scan_company N e cid fs) = Inr (changes, Some s)"
  using assms by (simp add: scan_company_def get_latest_snapshot_result split: prod.splits)

text \<open>
  C10. In the loop of \<open>run_scan\<close> every company of the batch ends up as a key of
  \<open>all_changes\<close>. When the batch names each company once, the entry of a company \<open>X\<close> is what
  its own scan gives on the file system left by the companies before it: the changes
  returned, or the empty list when the scan raised. So an exception in the scan of one
  company, such as the failing write of its snapshot, is recorded as zero changes for it,
  and the companies after it are scanned all the same. When the report stage raises
  nothing, \<open>run_scan\<close> returns this mapping.
\<close>

theorem run_scan_isolates_failures:
  fixes N :: int and env :: "string \<Rightarrow> scan_env" and company_ids :: "string list"
    and fs :: filesystem
  defines "st \<equiv> run_scan_loop N env company_ids fs"
  shows "fst ` set (all_changes st) = set company_ids
       \<and> (distinct company_ids \<longrightarrow>
            (\<forall>X \<in> set company_ids.
               map_of (all_changes st) X
               = Some (case fst (scan_company N (env X) X
                         (files (run_scan_loop N env (takeWhile (\<lambda>Y. Y \<noteq> X) company_ids) fs)))
                       of Inl err \<Rightarrow> [] | Inr (changes, snapshot) \<Rightarrow> changes)))
       \<and> (\<forall>X fs' s err. scraper (env X) = Some (Inr s) \<and> save_error (env X) = Some err \<longrightarrow>
             fst (scan_company N (env X) X fs') = Inl err)
       \<and> fst (run_scan N env None company_ids fs) = Inr (all_changes st)"
proof -
  have 1: "fst ` set (all_changes st) = set company_ids"
    by (simp add: st_def run_scan_loop_def keys_fold_scan_step)
  have 2: "distinct company_ids \<longrightarrow>
            (\<forall>X \<in> set company_ids.
               map_of (all_changes st) X
               = Some (case fst (scan_company N (env X) X
                         (files (run_scan_loop N env (takeWhile (\<lambda>Y. Y \<noteq> X) company_ids) fs)))
                       of Inl err \<Rightarrow> [] | Inr (changes, snapshot) \<Rightarrow> changes))"
  proof (intro impI ballI)
    fix X assume d: "distinct company_ids" and X: "X \<in> set company_ids"
    let ?pre = "takeWhile (\<lambda>Y. Y \<noteq> X) company_ids"
    let ?post = "tl (dropWhile (\<lambda>Y. Y \<noteq> X) company_ids)"
    let ?st0 = "\<lparr>all_changes = [], current_snapshots = [], files = fs\<rparr>"
    have split: "company_ids = ?pre @ X # ?post"
      using X by (metis (mono_tags, lifting) dropWhile_eq_Nil_conv hd_dropWhile list.collapse
          takeWhile_dropWhile_id)
    have notin: "X \<notin> set ?post"
      using d by (subst (asm) split) auto
    have "st = fold (scan_step N env) ?post (scan_step N env X (fold (scan_step N env) ?pre ?st0))"
      unfolding st_def run_scan_loop_def by (subst split) simp
    then have "map_of (all_changes st) X
               = map_of (all_changes (scan_step N env X (fold (scan_step N env) ?pre ?st0))) X"
      using map_of_fold_scan_step_other [OF notin] by simp
    also have "\<dots> = Some (recorded_changes (fst (scan_company N (env X) X
                   (files (fold (scan_step N env) ?pre ?st0)))))"
      by (simp add: all_changes_scan_step update_conv')
    finally show "map_of (all_changes st) X
               = Some (case fst (scan_company N (env X) X (files (run_scan_loop N env ?pre fs)))
                       of Inl err \<Rightarrow> [] | Inr (changes, snapshot) \<Rightarrow> changes)"
      by (simp add: run_scan_loop_def recorded_changes_def)
  qed
  have 3: "\<forall>X fs' s err. scraper (env X) = Some (Inr s) \<and> save_error (env X) = Some err \<longrightarrow>
             fst (scan_company N (env X) X fs') = Inl err"
    by (simp add: scan_company_write_failure)
  have 4: "fst (run_scan N env None company_ids fs) = Inr (all_changes st)"
    by (simp add: run_scan_def st_def Let_def)
  show ?thesis
    by (intro conjI) (fact 1 2 3 4)+
qed

theorem run_scan_isolates_failures_witness:
  "distinct [''webel'', ''fixo'']
   \<and> scraper (example_env ''webel'') = Some (Inr example_webel)
   \<and> save_error (example_env ''webel'') = Some (OSError ''No space left on device'')
   \<and> fst ` set (all_changes (run_scan_loop 90 example_env [''webel'', ''fixo''] example_fs1))
       = {''webel'', ''fixo''}
   \<and> map_of (all_changes (run_scan_loop 90 example_env [''webel'', ''fixo''] example_fs1))
         ''webel'' = Some []
   \<and> map_of (all_changes (run_scan_loop 90 example_env [''webel'', ''fixo''] example_fs1))
         ''fixo'' = Some example_forward_changes"
proof -
  note t = run_scan_isolates_failures [of 90 example_env "[''webel'', ''fixo'']" example_fs1]
  have env: "scraper (example_env ''webel'') = Some (Inr example_webel)"
      "save_error (example_env ''webel'') = Some (OSError ''No space left on device'')"
      "scraper (example_env ''fixo'') = Some (Inr example_new)"
      "save_error (example_env ''fixo'') = None"
      "detect_now (example_env ''fixo'') = ''t1''"
    by (simp_all add: example_env_def)
  have webel: "scan_company 90 (example_env ''webel'') ''webel'' example_fs1
               = (Inl (OSError ''No space left on device''),
                  company_dir ''webel'' (company_dir ''webel'' example_fs1))"
    using scan_company_write_failure [OF env(1,2)] by (simp add: example_webel_def)
  have pre: "files (run_scan_loop 90 example_env [''webel''] example_fs1)
             = company_dir ''webel'' (company_dir ''webel'' example_fs1)"
    by (simp add: run_scan_loop_def files_scan_step webel)
  have listing: "snapshot_files ''fixo''
                   (entries (company_dir ''webel'' (company_dir ''webel'' example_fs1)) ''fixo'')
                 = (''fixo_20250101_090000.json'', example_old) # []"
    by (simp add: example_fs1_entries snapshot_files_def glob_match_def)
  have fixo: "fst (scan_company 90 (example_env ''fixo'') ''fixo''
                (company_dir ''webel'' (company_dir ''webel'' example_fs1)))
              = Inr (example_forward_changes, Some example_new)"
    using scan_company_with_previous [OF env(3,4) listing] example_forward
    by (simp add: env(5))
  from t have keys: "fst ` set (all_changes
        (run_scan_loop 90 example_env [''webel'', ''fixo''] example_fs1))
       = {''webel'', ''fixo''}"
    by auto
  have d: "distinct [''webel'', ''fixo'']"
    by simp
  note each = t [THEN conjunct2, THEN conjunct1, rule_format, OF d]
  have w: "map_of (all_changes (run_scan_loop 90 example_env [''webel'', ''fixo''] example_fs1))
         ''webel'' = Some []"
    using each [of "''webel''"] by (simp add: run_scan_loop_def [of _ _ "[]"] webel)
  have f: "map_of (all_changes (run_scan_loop 90 example_env [''webel'', ''fixo''] example_fs1))
         ''fixo'' = Some example_forward_changes"
    using each [of "''fixo''"] by (simp add: pre fixo)
  show ?thesis
    using d env(1,2) keys w f by simp
qed

end
